theory Spec2Isabelle
  imports Main
begin

section \<open>Line timestamps of an Obsidian vault: the plugin's store and its change handler\<close>

text \<open>
  The repository holds two copies of one plugin: \<^verbatim>\<open>src/main.ts\<close> (class \<^verbatim>\<open>MyPlugin\<close>) and
  \<^verbatim>\<open>src/src/main.ts\<close> (class \<^verbatim>\<open>Timestamps\<close>). Both keep one JSON file,
  \<^verbatim>\<open>.timestamps/plugin-data/timestamps.json\<close>, that maps a file path to a map from line number
  to the ISO time of the last edit of that line. The embedding below follows the source
  function by function. What the source takes from its host is made explicit:
  \<^item> the vault (\<^verbatim>\<open>this.app.vault\<close> and its adapter) is a record of the files, the folders, the
    operations the medium refuses, and the log of the operations performed;
  \<^item> \<^verbatim>\<open>JSON.parse\<close> and \<^verbatim>\<open>JSON.stringify(_, null, 2)\<close> are built-ins of the JavaScript
    runtime: the source's functions take them as parameters (a record \<open>js\<close>), and
    \<open>json_runtime\<close> below is the runtime with the JSON texts of a store;
  \<^item> the workspace (active file, active Markdown view) and the clock
    (\<^verbatim>\<open>new Date().toISOString()\<close>) are arguments of the handlers;
  \<^item> a rejected promise (an exception) is the \<open>Inl\<close> of a sum.
\<close>

subsection \<open>Data\<close>

text \<open>
  \<^verbatim>\<open>type Timestamps = { [fileName: string]: { [lineNumber: number]: string } }\<close>
  (\<^verbatim>\<open>TimestampsType\<close> in the second copy). A JavaScript object is the list of its own
  properties in the order the runtime enumerates them: the keys that are array indices in
  ascending numeric order, then the other keys in the order they were created. Reading a
  property is \<open>map_of\<close>; keys inherited from \<^verbatim>\<open>Object.prototype\<close> are not modelled.
\<close>

type_synonym Entries = "(string \<times> string) list"

type_synonym Timestamps = "(string \<times> Entries) list"

datatype error = NotFound | AlreadyExists | IOError | SyntaxError | TypeError

datatype io = Read string | CreateFolder string | Create string | Write string

record vault =
  files :: "string \<rightharpoonup> string"
  folders :: "string set"
  faulty :: "io set"
  trace :: "io list"

text \<open>
  The runtime. \<open>JSON_parse rt s\<close> is \<open>None\<close> where \<^verbatim>\<open>JSON.parse(s)\<close> throws; the source gives
  the parsed value the type above without a check, and texts that parse to a value of
  another shape are outside the model (\<open>None\<close> as well). \<open>JSON_stringify rt m\<close> is
  \<^verbatim>\<open>JSON.stringify(m, null, 2)\<close>.
\<close>

record js =
  JSON_parse :: "string \<Rightarrow> Timestamps option"
  JSON_stringify :: "Timestamps \<Rightarrow> string"

text \<open>\<^verbatim>\<open>TFile\<close>: \<open>path\<close> is the path from the vault's root, \<open>name\<close> its last segment.\<close>

record tfile =
  path :: string
  name :: string

text \<open>
  The workspace: \<^verbatim>\<open>getActiveFile()\<close> and \<^verbatim>\<open>getActiveViewOfType(MarkdownView)\<close>. A view is
  the list of the texts of its rendered \<^verbatim>\<open>cm-line\<close> elements, which the source takes to be the
  lines \<open>0, 1, ...\<close> of the editor (\<^verbatim>\<open>view.editor.getLine(i)\<close>).
\<close>

record workspace =
  activeFile :: "tfile option"
  activeView :: "string list option"

text \<open>The plugin object of \<^verbatim>\<open>src/main.ts\<close>: its two fields and the vault of its app.
  \<open>updateTimer\<close> says whether a timeout is pending.\<close>

record plugin =
  updatedTimestamp :: bool
  updateTimer :: bool
  app :: vault

subsection \<open>JavaScript: number to string, property assignment\<close>

text \<open>\<^verbatim>\<open>lineNumber.toString()\<close> of a non-negative integer: its decimal digits.\<close>

fun toString :: "nat \<Rightarrow> string" where
  "toString n =
     (if n < 10 then [''0123456789'' ! n]
      else toString (n div 10) @ [''0123456789'' ! (n mod 10)])"

declare toString.simps [simp del]

definition digit_val :: "char \<Rightarrow> nat option" where
  "digit_val c = map_of
     [(CHR ''0'', 0), (CHR ''1'', 1), (CHR ''2'', 2), (CHR ''3'', 3), (CHR ''4'', 4),
      (CHR ''5'', 5), (CHR ''6'', 6), (CHR ''7'', 7), (CHR ''8'', 8), (CHR ''9'', 9)] c"

fun digits_val :: "nat \<Rightarrow> string \<Rightarrow> nat option" where
  "digits_val acc [] = Some acc"
| "digits_val acc (c # cs) =
     (case digit_val c of None \<Rightarrow> None | Some d \<Rightarrow> digits_val (10 * acc + d) cs)"

text \<open>A property key is an array index when it is the canonical decimal form of an
  integer below \<open>2^32 - 1\<close>.\<close>

definition array_index :: "string \<Rightarrow> nat option" where
  "array_index k =
     (case k of
        [] \<Rightarrow> None
      | c # cs \<Rightarrow>
          if c = CHR ''0'' \<and> cs \<noteq> [] then None
          else (case digits_val 0 k of
                  None \<Rightarrow> None
                | Some i \<Rightarrow> if i < 4294967295 then Some i else None))"

fun assign_existing :: "string \<Rightarrow> 'v \<Rightarrow> (string \<times> 'v) list \<Rightarrow> (string \<times> 'v) list" where
  "assign_existing k x [] = []"
| "assign_existing k x (p # ps) =
     (if fst p = k then (k, x) # ps else p # assign_existing k x ps)"

fun insert_index :: "nat \<Rightarrow> string \<times> 'v \<Rightarrow> (string \<times> 'v) list \<Rightarrow> (string \<times> 'v) list" where
  "insert_index i kv [] = [kv]"
| "insert_index i kv (p # ps) =
     (case array_index (fst p) of
        None \<Rightarrow> kv # p # ps
      | Some j \<Rightarrow> if j < i then p # insert_index i kv ps else kv # p # ps)"

text \<open>\<^verbatim>\<open>obj[k] = x\<close>: an own property keeps its place; a new one is created, among the
  array indices when its key is one, last otherwise.\<close>

definition own_set :: "string \<Rightarrow> 'v \<Rightarrow> (string \<times> 'v) list \<Rightarrow> (string \<times> 'v) list" where
  "own_set k x obj =
     (if map_of obj k = None
      then (case array_index k of
              None \<Rightarrow> obj @ [(k, x)]
            | Some i \<Rightarrow> insert_index i (k, x) obj)
      else assign_existing k x obj)"

text \<open>The lists that are objects: no key twice, the array indices first and in ascending
  order. A store is an object whose values are objects.\<close>

definition index_before :: "string \<Rightarrow> string \<Rightarrow> bool" where
  "index_before k k' =
     (case array_index k' of
        None \<Rightarrow> True
      | Some j \<Rightarrow> (case array_index k of None \<Rightarrow> False | Some i \<Rightarrow> i < j))"

fun ordered_keys :: "string list \<Rightarrow> bool" where
  "ordered_keys [] = True"
| "ordered_keys [k] = True"
| "ordered_keys (k # k' # ks) = (index_before k k' \<and> ordered_keys (k' # ks))"

definition js_object :: "(string \<times> 'v) list \<Rightarrow> bool" where
  "js_object obj = (distinct (map fst obj) \<and> ordered_keys (map fst obj))"

definition js_store :: "Timestamps \<Rightarrow> bool" where
  "js_store m = (js_object m \<and> list_all js_object (map snd m))"

subsection \<open>The host: vault and adapter\<close>

text \<open>
  \<^verbatim>\<open>normalizePath(".timestamps/plugin-data/")\<close> and
  \<^verbatim>\<open>normalizePath(`${this.METADATA_DIR}/timestamps.json`)\<close>.
\<close>

definition METADATA_DIR :: string where
  "METADATA_DIR = ''.timestamps/plugin-data''"

definition METADATA_FILE :: string where
  "METADATA_FILE = ''.timestamps/plugin-data/timestamps.json''"

text \<open>
  The four host calls of the source, as the source relies on them (its comments
  \<^verbatim>\<open>// folder exists\<close> and \<^verbatim>\<open>// file exists\<close>): \<^verbatim>\<open>adapter.read\<close> rejects when the file is
  missing, \<^verbatim>\<open>vault.createFolder\<close> and \<^verbatim>\<open>vault.create\<close> reject when their target exists,
  \<^verbatim>\<open>adapter.write\<close> creates or overwrites. Each rejects with \<open>IOError\<close> when the medium
  refuses the operation (\<open>faulty\<close>), and each is logged in \<open>trace\<close>.
\<close>

definition adapter_read :: "string \<Rightarrow> vault \<Rightarrow> (error + string) \<times> vault" where
  "adapter_read p v =
     (let v' = v\<lparr>trace := trace v @ [Read p]\<rparr> in
      if Read p \<in> faulty v then (Inl IOError, v')
      else (case files v p of
              None \<Rightarrow> (Inl NotFound, v')
            | Some c \<Rightarrow> (Inr c, v')))"

definition vault_createFolder :: "string \<Rightarrow> vault \<Rightarrow> (error + unit) \<times> vault" where
  "vault_createFolder p v =
     (let v' = v\<lparr>trace := trace v @ [CreateFolder p]\<rparr> in
      if CreateFolder p \<in> faulty v then (Inl IOError, v')
      else if p \<in> folders v then (Inl AlreadyExists, v')
      else (Inr (), v'\<lparr>folders := insert p (folders v)\<rparr>))"

definition vault_create :: "string \<Rightarrow> string \<Rightarrow> vault \<Rightarrow> (error + unit) \<times> vault" where
  "vault_create p c v =
     (let v' = v\<lparr>trace := trace v @ [Create p]\<rparr> in
      if Create p \<in> faulty v then (Inl IOError, v')
      else (case files v p of
              Some old \<Rightarrow> (Inl AlreadyExists, v')
            | None \<Rightarrow> (Inr (), v'\<lparr>files := (files v)(p \<mapsto> c)\<rparr>)))"

definition adapter_write :: "string \<Rightarrow> string \<Rightarrow> vault \<Rightarrow> (error + unit) \<times> vault" where
  "adapter_write p c v =
     (let v' = v\<lparr>trace := trace v @ [Write p]\<rparr> in
      if Write p \<in> faulty v then (Inl IOError, v')
      else (Inr (), v'\<lparr>files := (files v)(p \<mapsto> c)\<rparr>))"

subsection \<open>\<^verbatim>\<open>src/main.ts\<close>\<close>

text \<open>\<^verbatim>\<open>loadMetadata\<close> (lines 149-155): read the file, parse it; nothing is caught.\<close>

definition loadMetadata :: "js \<Rightarrow> vault \<Rightarrow> (error + Timestamps) \<times> vault" where
  "loadMetadata rt v =
     (case adapter_read METADATA_FILE v of
        (Inl e, v') \<Rightarrow> (Inl e, v')
      | (Inr metadataFile, v') \<Rightarrow>
          (case JSON_parse rt metadataFile of
             None \<Rightarrow> (Inl SyntaxError, v')
           | Some metadata \<Rightarrow> (Inr metadata, v')))"

text \<open>\<^verbatim>\<open>saveMetadata\<close> (lines 164-180): a failure of \<^verbatim>\<open>createFolder\<close> is swallowed; a
  failure of \<^verbatim>\<open>create\<close> falls back to \<^verbatim>\<open>adapter.write\<close>, whose failure is not caught.\<close>

definition saveMetadata :: "js \<Rightarrow> Timestamps \<Rightarrow> vault \<Rightarrow> (error + unit) \<times> vault" where
  "saveMetadata rt metadata v =
     (let content = JSON_stringify rt metadata;
          v1 = snd (vault_createFolder METADATA_DIR v)
      in case vault_create METADATA_FILE content v1 of
           (Inr u, v2) \<Rightarrow> (Inr (), v2)
         | (Inl e, v2) \<Rightarrow> adapter_write METADATA_FILE content v2)"

text \<open>
  \<^verbatim>\<open>overlayTimestamps\<close> (lines 236-293). The loop runs over the rendered lines; the active
  file is read in every round, the function returns when there is none, and
  \<^verbatim>\<open>timestamps[fileName][i]\<close> throws a \<^verbatim>\<open>TypeError\<close> when \<^verbatim>\<open>timestamps[fileName]\<close> is
  undefined. A badge is made when both the timestamp and the line's text are non-empty.
  The result is the list of badges (line, timestamp) appended to the overlay container;
  their styling and the time format are left out. A null view throws at
  \<^verbatim>\<open>view.containerEl\<close>.
\<close>

fun overlay_loop ::
  "workspace \<Rightarrow> Timestamps \<Rightarrow> string list \<Rightarrow> nat \<Rightarrow> (nat \<times> string) list
     \<Rightarrow> error + (nat \<times> string) list" where
  "overlay_loop ws timestamps [] i badges = Inr badges"
| "overlay_loop ws timestamps (lineText # rest) i badges =
     (case activeFile ws of
        None \<Rightarrow> Inr badges
      | Some file \<Rightarrow>
          if name file = [] then Inr badges
          else (case map_of timestamps (name file) of
                  None \<Rightarrow> Inl TypeError
                | Some entries \<Rightarrow>
                    (case map_of entries (toString i) of
                       None \<Rightarrow> overlay_loop ws timestamps rest (Suc i) badges
                     | Some timestamp \<Rightarrow>
                         if timestamp = [] \<or> lineText = []
                         then overlay_loop ws timestamps rest (Suc i) badges
                         else overlay_loop ws timestamps rest (Suc i)
                                (badges @ [(i, timestamp)]))))"

definition overlayTimestamps ::
  "workspace \<Rightarrow> string list option \<Rightarrow> Timestamps \<Rightarrow> error + (nat \<times> string) list" where
  "overlayTimestamps ws view timestamps =
     (case view of
        None \<Rightarrow> Inl TypeError
      | Some cm_lines \<Rightarrow> overlay_loop ws timestamps cm_lines 0 [])"

text \<open>Lines 199-203 of \<^verbatim>\<open>updateLineTimestamp\<close>, the update of the loaded object:
  \<^verbatim>\<open>if (!metadata[filePath]) metadata[filePath] = {}\<close>, then
  \<^verbatim>\<open>metadata[filePath][lineNumber.toString()] = timestamp\<close>. An entry map is an object, hence
  truthy: the test fails exactly when the path has no property.\<close>

definition stamp :: "Timestamps \<Rightarrow> string \<Rightarrow> nat \<Rightarrow> string \<Rightarrow> Timestamps" where
  "stamp metadata filePath lineNumber timestamp =
     (let metadata1 =
            (if map_of metadata filePath = None then own_set filePath [] metadata
             else metadata)
      in case map_of metadata1 filePath of
           None \<Rightarrow> metadata1
         | Some entries \<Rightarrow>
             own_set filePath (own_set (toString lineNumber) timestamp entries) metadata1)"

text \<open>\<^verbatim>\<open>updateLineTimestamp\<close> (lines 191-210): load, update, save, then redraw the overlay
  of the active view from the updated object.\<close>

definition updateLineTimestamp ::
  "js \<Rightarrow> workspace \<Rightarrow> string \<Rightarrow> nat \<Rightarrow> string \<Rightarrow> vault \<Rightarrow> (error + unit) \<times> vault" where
  "updateLineTimestamp rt ws filePath lineNumber timestamp v =
     (case loadMetadata rt v of
        (Inl e, v1) \<Rightarrow> (Inl e, v1)
      | (Inr metadata, v1) \<Rightarrow>
          (let metadata' = stamp metadata filePath lineNumber timestamp in
           case saveMetadata rt metadata' v1 of
             (Inl e, v2) \<Rightarrow> (Inl e, v2)
           | (Inr u, v2) \<Rightarrow>
               (case overlayTimestamps ws (activeView ws) metadata' of
                  Inl e \<Rightarrow> (Inl e, v2)
                | Inr badges \<Rightarrow> (Inr (), v2))))"

text \<open>
  \<^verbatim>\<open>handleEditorChange\<close> (lines 212-233). \<open>line\<close> is \<^verbatim>\<open>editor.getCursor("from").line\<close> and
  \<open>now\<close> is \<^verbatim>\<open>new Date().toISOString()\<close>. An exception of the awaited update leaves the
  handler before the flag is set. One call is taken as one step: what another event
  does while the update is awaited is not modelled.
\<close>

definition handleEditorChange ::
  "js \<Rightarrow> workspace \<Rightarrow> nat \<Rightarrow> string \<Rightarrow> plugin \<Rightarrow> (error + unit) \<times> plugin" where
  "handleEditorChange rt ws line now p =
     (case activeFile ws of
        None \<Rightarrow> (Inr (), p)
      | Some file \<Rightarrow>
          if updatedTimestamp p then (Inr (), p)
          else (case updateLineTimestamp rt ws (path file) line now (app p) of
                  (Inl e, v') \<Rightarrow> (Inl e, p\<lparr>app := v'\<rparr>)
                | (Inr u, v') \<Rightarrow>
                    (let p1 = p\<lparr>app := v', updatedTimestamp := True\<rparr> in
                     (Inr (), if updateTimer p1 then p1 else p1\<lparr>updateTimer := True\<rparr>))))"

text \<open>The callback of \<^verbatim>\<open>setTimeout(..., 2000)\<close> (lines 225-229).\<close>

definition timerExpired :: "plugin \<Rightarrow> plugin" where
  "timerExpired p = p\<lparr>updatedTimestamp := False, updateTimer := False\<rparr>"

subsection \<open>\<^verbatim>\<open>src/src/main.ts\<close>\<close>

text \<open>The second copy, translated from its own text: \<^verbatim>\<open>loadMetadata\<close> (lines 96-102),
  \<^verbatim>\<open>saveMetadata\<close> (lines 111-127), \<^verbatim>\<open>overlayTimestamps\<close> (lines 185-241) and
  \<^verbatim>\<open>updateLineTimestamp\<close> (lines 138-157).\<close>

definition loadMetadata2 :: "js \<Rightarrow> vault \<Rightarrow> (error + Timestamps) \<times> vault" where
  "loadMetadata2 rt v =
     (case adapter_read METADATA_FILE v of
        (Inl e, v') \<Rightarrow> (Inl e, v')
      | (Inr metadataFile, v') \<Rightarrow>
          (case JSON_parse rt metadataFile of
             None \<Rightarrow> (Inl SyntaxError, v')
           | Some metadata \<Rightarrow> (Inr metadata, v')))"

definition saveMetadata2 :: "js \<Rightarrow> Timestamps \<Rightarrow> vault \<Rightarrow> (error + unit) \<times> vault" where
  "saveMetadata2 rt metadata v =
     (let content = JSON_stringify rt metadata;
          v1 = snd (vault_createFolder METADATA_DIR v)
      in case vault_create METADATA_FILE content v1 of
           (Inr u, v2) \<Rightarrow> (Inr (), v2)
         | (Inl e, v2) \<Rightarrow> adapter_write METADATA_FILE content v2)"

fun overlay_loop2 ::
  "workspace \<Rightarrow> Timestamps \<Rightarrow> string list \<Rightarrow> nat \<Rightarrow> (nat \<times> string) list
     \<Rightarrow> error + (nat \<times> string) list" where
  "overlay_loop2 ws timestamps [] i badges = Inr badges"
| "overlay_loop2 ws timestamps (lineText # rest) i badges =
     (case activeFile ws of
        None \<Rightarrow> Inr badges
      | Some file \<Rightarrow>
          if name file = [] then Inr badges
          else (case map_of timestamps (name file) of
                  None \<Rightarrow> Inl TypeError
                | Some entries \<Rightarrow>
                    (case map_of entries (toString i) of
                       None \<Rightarrow> overlay_loop2 ws timestamps rest (Suc i) badges
                     | Some timestamp \<Rightarrow>
                         if timestamp = [] \<or> lineText = []
                         then overlay_loop2 ws timestamps rest (Suc i) badges
                         else overlay_loop2 ws timestamps rest (Suc i)
                                (badges @ [(i, timestamp)]))))"

definition overlayTimestamps2 ::
  "workspace \<Rightarrow> string list option \<Rightarrow> Timestamps \<Rightarrow> error + (nat \<times> string) list" where
  "overlayTimestamps2 ws view timestamps =
     (case view of
        None \<Rightarrow> Inl TypeError
      | Some cm_lines \<Rightarrow> overlay_loop2 ws timestamps cm_lines 0 [])"

definition stamp2 :: "Timestamps \<Rightarrow> string \<Rightarrow> nat \<Rightarrow> string \<Rightarrow> Timestamps" where
  "stamp2 metadata filePath lineNumber timestamp =
     (let metadata1 =
            (if map_of metadata filePath = None then own_set filePath [] metadata
             else metadata)
      in case map_of metadata1 filePath of
           None \<Rightarrow> metadata1
         | Some entries \<Rightarrow>
             own_set filePath (own_set (toString lineNumber) timestamp entries) metadata1)"

definition updateLineTimestamp2 ::
  "js \<Rightarrow> workspace \<Rightarrow> string \<Rightarrow> nat \<Rightarrow> string \<Rightarrow> vault \<Rightarrow> (error + unit) \<times> vault" where
  "updateLineTimestamp2 rt ws filePath lineNumber timestamp v =
     (case loadMetadata2 rt v of
        (Inl e, v1) \<Rightarrow> (Inl e, v1)
      | (Inr metadata, v1) \<Rightarrow>
          (let metadata' = stamp2 metadata filePath lineNumber timestamp in
           case saveMetadata2 rt metadata' v1 of
             (Inl e, v2) \<Rightarrow> (Inl e, v2)
           | (Inr u, v2) \<Rightarrow>
               (case overlayTimestamps2 ws (activeView ws) metadata' of
                  Inl e \<Rightarrow> (Inl e, v2)
                | Inr badges \<Rightarrow> (Inr (), v2))))"

text \<open>\<^verbatim>\<open>handleEditorChange\<close> of the second copy (lines 159-183): the flag and the timer are
  commented out, so the handler only needs the vault.\<close>

definition handleEditorChange2 ::
  "js \<Rightarrow> workspace \<Rightarrow> nat \<Rightarrow> string \<Rightarrow> vault \<Rightarrow> (error + unit) \<times> vault" where
  "handleEditorChange2 rt ws line now v =
     (case activeFile ws of
        None \<Rightarrow> (Inr (), v)
      | Some file \<Rightarrow> updateLineTimestamp2 rt ws (path file) line now v)"

subsection \<open>Events\<close>

text \<open>What the host delivers to the plugin of \<^verbatim>\<open>src/main.ts\<close>: an editor change (with the
  workspace, the cursor's line and the time at that moment) or the expiry of the pending
  timeout. A rejected handler does not stop the plugin; the next event finds the state the
  handler left.\<close>

datatype event = EditorChange workspace nat string | TimerFired

fun step :: "js \<Rightarrow> plugin \<Rightarrow> event \<Rightarrow> plugin" where
  "step rt p (EditorChange ws line now) = snd (handleEditorChange rt ws line now p)"
| "step rt p TimerFired = (if updateTimer p then timerExpired p else p)"

fun is_editor_change :: "event \<Rightarrow> bool" where
  "is_editor_change (EditorChange ws line now) = True"
| "is_editor_change TimerFired = False"

definition run :: "js \<Rightarrow> plugin \<Rightarrow> event list \<Rightarrow> plugin" where
  "run rt p events = foldl (step rt) p events"

text \<open>The timestamp recorded for a line key of a file, if any.\<close>

definition entry :: "Timestamps \<Rightarrow> string \<Rightarrow> string \<Rightarrow> string option" where
  "entry metadata filePath key =
     (case map_of metadata filePath of None \<Rightarrow> None | Some entries \<Rightarrow> map_of entries key)"

subsection \<open>The JSON text of a store\<close>

text \<open>
  \<open>render m\<close> is the text \<^verbatim>\<open>JSON.stringify(m, null, 2)\<close> of a store: the members of an object
  in the order of its list, one per line and indented by two spaces for each level, an
  empty object as \<^verbatim>\<open>{}\<close>; a string in double quotes, with the quote, the backslash and the
  characters below 0x20 escaped. A character is a code unit below 256.
\<close>

definition hex_digit :: "nat \<Rightarrow> char" where
  "hex_digit d = ''0123456789abcdef'' ! d"

definition json_char :: "char \<Rightarrow> string" where
  "json_char c =
     (if c = CHR 0x22 then [CHR 0x5C, CHR 0x22]
      else if c = CHR 0x5C then [CHR 0x5C, CHR 0x5C]
      else if c = CHR 0x08 then [CHR 0x5C, CHR ''b'']
      else if c = CHR 0x0C then [CHR 0x5C, CHR ''f'']
      else if c = CHR 0x0A then [CHR 0x5C, CHR ''n'']
      else if c = CHR 0x0D then [CHR 0x5C, CHR ''r'']
      else if c = CHR 0x09 then [CHR 0x5C, CHR ''t'']
      else if (of_char c :: nat) < 32
      then [CHR 0x5C, CHR ''u'', CHR ''0'', CHR ''0'',
            hex_digit (of_char c div 16), hex_digit (of_char c mod 16)]
      else [c])"

definition json_string :: "string \<Rightarrow> string" where
  "json_string s = [CHR 0x22] @ concat (map json_char s) @ [CHR 0x22]"

fun json_members :: "string \<Rightarrow> ('v \<Rightarrow> string) \<Rightarrow> (string \<times> 'v) list \<Rightarrow> string" where
  "json_members ind f [] = []"
| "json_members ind f [kv] = ind @ json_string (fst kv) @ '': '' @ f (snd kv)"
| "json_members ind f (kv # kv' # rest) =
     ind @ json_string (fst kv) @ '': '' @ f (snd kv) @ '','' @ [CHR 0x0A]
       @ json_members ind f (kv' # rest)"

definition json_object :: "string \<Rightarrow> ('v \<Rightarrow> string) \<Rightarrow> (string \<times> 'v) list \<Rightarrow> string" where
  "json_object ind f obj =
     (case obj of
        [] \<Rightarrow> ''{}''
      | kv # rest \<Rightarrow>
          ''{'' @ [CHR 0x0A] @ json_members (ind @ ''  '') f obj @ [CHR 0x0A] @ ind @ ''}'')"

definition render :: "Timestamps \<Rightarrow> string" where
  "render m = json_object [] (json_object ''  '' json_string) m"

text \<open>
  \<open>parse_json s\<close> is \<^verbatim>\<open>JSON.parse(s)\<close> on the texts of stores. The text is read as
  tokens: whitespace (space, tab, line feed, carriage return) is skipped, a string starts
  and ends with a double quote, holds no character below 0x20 and may hold the escapes
  \<^verbatim>\<open>\" \\ \/ \b \f \n \r \t\<close> and \<^verbatim>\<open>\uXXXX\<close>. The tokens are read as an object whose
  values are objects of strings; each member is assigned as \<^verbatim>\<open>JSON.parse\<close> creates
  properties, so a repeated key keeps its place and takes the later value. Every other
  text is \<open>None\<close>: a text that is not JSON, a JSON value of another shape, and an
  escape of a code unit above 255.
\<close>

datatype token = LBrace | RBrace | Colon | Comma | Str string

definition is_ws :: "char \<Rightarrow> bool" where
  "is_ws c = (c = CHR '' '' \<or> c = CHR 0x09 \<or> c = CHR 0x0A \<or> c = CHR 0x0D)"

definition hex_val :: "char \<Rightarrow> nat option" where
  "hex_val c = map_of
     [(CHR ''0'', 0), (CHR ''1'', 1), (CHR ''2'', 2), (CHR ''3'', 3), (CHR ''4'', 4),
      (CHR ''5'', 5), (CHR ''6'', 6), (CHR ''7'', 7), (CHR ''8'', 8), (CHR ''9'', 9),
      (CHR ''a'', 10), (CHR ''b'', 11), (CHR ''c'', 12), (CHR ''d'', 13), (CHR ''e'', 14),
      (CHR ''f'', 15), (CHR ''A'', 10), (CHR ''B'', 11), (CHR ''C'', 12), (CHR ''D'', 13),
      (CHR ''E'', 14), (CHR ''F'', 15)] c"

definition hex4 :: "char \<Rightarrow> char \<Rightarrow> char \<Rightarrow> char \<Rightarrow> nat option" where
  "hex4 h1 h2 h3 h4 =
     (case (hex_val h1, hex_val h2, hex_val h3, hex_val h4) of
        (Some a, Some b, Some c, Some d) \<Rightarrow> Some (4096 * a + 256 * b + 16 * c + d)
      | _ \<Rightarrow> None)"

definition unescape :: "char \<Rightarrow> char option" where
  "unescape e = map_of
     [(CHR 0x22, CHR 0x22), (CHR 0x5C, CHR 0x5C), (CHR ''/'', CHR ''/''),
      (CHR ''b'', CHR 0x08), (CHR ''f'', CHR 0x0C), (CHR ''n'', CHR 0x0A),
      (CHR ''r'', CHR 0x0D), (CHR ''t'', CHR 0x09)] e"

fun lex :: "string \<Rightarrow> token list option"
  and lex_string :: "string \<Rightarrow> string \<Rightarrow> token list option" where
  "lex [] = Some []"
| "lex (c # cs) =
     (if is_ws c then lex cs
      else if c = CHR ''{'' then map_option (Cons LBrace) (lex cs)
      else if c = CHR ''}'' then map_option (Cons RBrace) (lex cs)
      else if c = CHR '':'' then map_option (Cons Colon) (lex cs)
      else if c = CHR '','' then map_option (Cons Comma) (lex cs)
      else if c = CHR 0x22 then lex_string [] cs
      else None)"
| "lex_string acc [] = None"
| "lex_string acc (c # cs) =
     (if c = CHR 0x22 then map_option (Cons (Str (rev acc))) (lex cs)
      else if c = CHR 0x5C then
        (case cs of
           [] \<Rightarrow> None
         | e # cs1 \<Rightarrow>
             if e = CHR ''u'' then
               (case cs1 of
                  h1 # h2 # h3 # h4 # cs2 \<Rightarrow>
                    (case hex4 h1 h2 h3 h4 of
                       None \<Rightarrow> None
                     | Some n \<Rightarrow>
                         if n < 256 then lex_string (char_of n # acc) cs2 else None)
                | _ \<Rightarrow> None)
             else (case unescape e of
                     None \<Rightarrow> None
                   | Some d \<Rightarrow> lex_string (d # acc) cs1))
      else if (of_char c :: nat) < 32 then None
      else lex_string (c # acc) cs)"

fun parse_outer :: "Timestamps \<Rightarrow> token list \<Rightarrow> Timestamps option"
  and parse_inner :: "Timestamps \<Rightarrow> string \<Rightarrow> Entries \<Rightarrow> token list \<Rightarrow> Timestamps option"
  and parse_next :: "Timestamps \<Rightarrow> token list \<Rightarrow> Timestamps option" where
  "parse_outer acc ts =
     (case ts of
        Str k # Colon # LBrace # rest \<Rightarrow>
          (case rest of
             RBrace # ts' \<Rightarrow> parse_next (own_set k [] acc) ts'
           | _ \<Rightarrow> parse_inner acc k [] rest)
      | _ \<Rightarrow> None)"
| "parse_inner acc k es ts =
     (case ts of
        Str l # Colon # Str x # sep # ts' \<Rightarrow>
          (case sep of
             Comma \<Rightarrow> parse_inner acc k (own_set l x es) ts'
           | RBrace \<Rightarrow> parse_next (own_set k (own_set l x es) acc) ts'
           | _ \<Rightarrow> None)
      | _ \<Rightarrow> None)"
| "parse_next acc ts =
     (case ts of
        [RBrace] \<Rightarrow> Some acc
      | Comma # ts' \<Rightarrow> parse_outer acc ts'
      | _ \<Rightarrow> None)"

declare parse_outer.simps [simp del] parse_inner.simps [simp del] parse_next.simps [simp del]

definition parse_tokens :: "token list \<Rightarrow> Timestamps option" where
  "parse_tokens ts =
     (case ts of
        LBrace # rest \<Rightarrow> if rest = [RBrace] then Some [] else parse_outer [] rest
      | _ \<Rightarrow> None)"

definition parse_json :: "string \<Rightarrow> Timestamps option" where
  "parse_json s = (case lex s of None \<Rightarrow> None | Some ts \<Rightarrow> parse_tokens ts)"

definition json_runtime :: js where
  "json_runtime = \<lparr>JSON_parse = parse_json, JSON_stringify = render\<rparr>"

text \<open>The tokens of a printed object, and the object that assigning members one after
  the other gives; \<open>build\<close> is what the parser returns for the tokens of \<open>m\<close>.\<close>

fun members_tokens :: "('v \<Rightarrow> token list) \<Rightarrow> (string \<times> 'v) list \<Rightarrow> token list" where
  "members_tokens g [] = []"
| "members_tokens g [kv] = Str (fst kv) # Colon # g (snd kv)"
| "members_tokens g (kv # kv' # rest) =
     Str (fst kv) # Colon # g (snd kv) @ Comma # members_tokens g (kv' # rest)"

definition object_tokens :: "('v \<Rightarrow> token list) \<Rightarrow> (string \<times> 'v) list \<Rightarrow> token list" where
  "object_tokens g obj = LBrace # members_tokens g obj @ [RBrace]"

definition assign_all :: "(string \<times> 'v) list \<Rightarrow> (string \<times> 'v) list \<Rightarrow> (string \<times> 'v) list" where
  "assign_all obj members = foldl (\<lambda>a kv. own_set (fst kv) (snd kv) a) obj members"

definition build :: "Timestamps \<Rightarrow> Timestamps \<Rightarrow> Timestamps" where
  "build acc m = foldl (\<lambda>a kv. own_set (fst kv) (assign_all [] (snd kv)) a) acc m"

subsection \<open>Closed inputs\<close>

text \<open>
  A runtime for closed examples: \<open>sample_js known\<close> prints with \<open>render\<close> and parses the
  texts of the snapshots listed in \<open>known\<close>, which is all an example reads.
\<close>

definition sample_js :: "Timestamps list \<Rightarrow> js" where
  "sample_js known =
     \<lparr>JSON_parse = (\<lambda>s. find (\<lambda>m. render m = s) known), JSON_stringify = render\<rparr>"

text \<open>A vault that holds the store \<open>m\<close>, and a workspace with an active file shown in a
  Markdown view.\<close>

definition vault_with :: "Timestamps \<Rightarrow> vault" where
  "vault_with m =
     \<lparr>files = [METADATA_FILE \<mapsto> render m], folders = {METADATA_DIR}, faulty = {}, trace = []\<rparr>"

definition editing :: "string \<Rightarrow> string \<Rightarrow> string list \<Rightarrow> workspace" where
  "editing file_path file_name cm_lines =
     \<lparr>activeFile = Some \<lparr>path = file_path, name = file_name\<rparr>, activeView = Some cm_lines\<rparr>"

text \<open>The plugin as \<^verbatim>\<open>onload\<close> leaves it (line 65): the flag is clear and no timeout is
  pending.\<close>

definition loaded_plugin :: "vault \<Rightarrow> plugin" where
  "loaded_plugin v = \<lparr>updatedTimestamp = False, updateTimer = False, app = v\<rparr>"

text \<open>A vault whose store file holds the text \<open>c\<close>, and the text
  \<^verbatim>\<open>{"a.md":{"0":"t1"}}\<close>, a store written without whitespace.\<close>

definition vault_holding :: "string \<Rightarrow> vault" where
  "vault_holding c =
     \<lparr>files = [METADATA_FILE \<mapsto> c], folders = {METADATA_DIR}, faulty = {}, trace = []\<rparr>"

definition compact_text :: string where
  "compact_text =
     ''{'' @ json_string ''a.md'' @ '':{'' @ json_string ''0'' @ '':'' @ json_string ''t1''
       @ ''}}''"

subsection \<open>A vault without the store\<close>

definition fresh_vault :: vault where
  "fresh_vault = \<lparr>files = Map.empty, folders = {}, faulty = {}, trace = []\<rparr>"

subsection \<open>The line diff of the specification\<close>

text \<open>
  Modelled from the spec: \<^verbatim>\<open>computeEditScript\<close> (section 4.1) and the edit script (section 3).
  Neither copy of the source has a diff: \<^verbatim>\<open>src/src/main.ts\<close> imports \<^verbatim>\<open>diff\<close> from the
  package \<^verbatim>\<open>fast-myers-diff\<close> (line 12) and never calls it. The model follows the spec's words:
  an operation is one of equal, insert, delete and replace over half-open ranges of line
  indices (start, end); two lines are equal when their strings are; the script copies a
  longest common subsequence of lines, so that insertions plus deletions are minimal, and
  matches the earliest occurrences; neighbouring lines of one kind form one run. The
  facts \<open>kept_lines\<close> and \<open>replay_computeEditScript\<close> below check the model against these
  words: the lines a script keeps are as many as a longest common subsequence has, and
  applying the script to the old lines gives the new lines.
\<close>

datatype edit_op =
  Equal "nat \<times> nat" "nat \<times> nat"
| Insert "nat \<times> nat"
| Delete "nat \<times> nat"
| Replace "nat \<times> nat" "nat \<times> nat"

datatype line_step = Keep | Ins | Del

fun lcs_length :: "string list \<Rightarrow> string list \<Rightarrow> nat" where
  "lcs_length [] ys = 0"
| "lcs_length xs [] = 0"
| "lcs_length (x # xs) (y # ys) =
     (if x = y then Suc (lcs_length xs ys)
      else max (lcs_length xs (y # ys)) (lcs_length (x # xs) ys))"

fun line_steps :: "string list \<Rightarrow> string list \<Rightarrow> line_step list" where
  "line_steps [] ys = map (\<lambda>y. Ins) ys"
| "line_steps xs [] = map (\<lambda>x. Del) xs"
| "line_steps (x # xs) (y # ys) =
     (if x = y then Keep # line_steps xs ys
      else if lcs_length (x # xs) ys \<le> lcs_length xs (y # ys) then Del # line_steps xs (y # ys)
      else Ins # line_steps (x # xs) ys)"

fun push_step :: "line_step \<Rightarrow> nat \<Rightarrow> nat \<Rightarrow> edit_op list \<Rightarrow> edit_op list" where
  "push_step Keep i j (Equal old new # ops) = Equal (i, snd old) (j, snd new) # ops"
| "push_step Keep i j ops = Equal (i, Suc i) (j, Suc j) # ops"
| "push_step Ins i j (Insert new # ops) = Insert (j, snd new) # ops"
| "push_step Ins i j ops = Insert (j, Suc j) # ops"
| "push_step Del i j (Delete old # ops) = Delete (i, snd old) # ops"
| "push_step Del i j ops = Delete (i, Suc i) # ops"

fun group_steps :: "nat \<Rightarrow> nat \<Rightarrow> line_step list \<Rightarrow> edit_op list" where
  "group_steps i j [] = []"
| "group_steps i j (Keep # steps) = push_step Keep i j (group_steps (Suc i) (Suc j) steps)"
| "group_steps i j (Ins # steps) = push_step Ins i j (group_steps i (Suc j) steps)"
| "group_steps i j (Del # steps) = push_step Del i j (group_steps (Suc i) j steps)"

text \<open>A delete run next to an insert run is one replace.\<close>

fun fuse :: "edit_op list \<Rightarrow> edit_op list" where
  "fuse (Delete old # Insert new # ops) = Replace old new # fuse ops"
| "fuse (Insert new # Delete old # ops) = Replace old new # fuse ops"
| "fuse (e # ops) = e # fuse ops"
| "fuse [] = []"

definition computeEditScript :: "string list \<Rightarrow> string list \<Rightarrow> edit_op list" where
  "computeEditScript oldLines newLines =
     fuse (group_steps 0 0 (line_steps oldLines newLines))"

text \<open>
  Modelled from the spec: applying a script (section 4.1, "operations, applied in order,
  reconstruct \<^verbatim>\<open>newLines\<close> from \<^verbatim>\<open>oldLines\<close> by copying equal runs and inserting new runs").
  An equal run copies its old range, an insert or replace run takes its new range, a
  delete run gives nothing.
\<close>

definition slice :: "string list \<Rightarrow> nat \<times> nat \<Rightarrow> string list" where
  "slice xs r = take (snd r - fst r) (drop (fst r) xs)"

fun op_lines :: "string list \<Rightarrow> string list \<Rightarrow> edit_op \<Rightarrow> string list" where
  "op_lines oldLines newLines (Equal old new) = slice oldLines old"
| "op_lines oldLines newLines (Insert new) = slice newLines new"
| "op_lines oldLines newLines (Delete old) = []"
| "op_lines oldLines newLines (Replace old new) = slice newLines new"

definition replay :: "edit_op list \<Rightarrow> string list \<Rightarrow> string list \<Rightarrow> string list" where
  "replay ops oldLines newLines = concat (map (op_lines oldLines newLines) ops)"

text \<open>The first run of a script starts at the given old and new line and is not empty.\<close>

fun starts_at :: "nat \<Rightarrow> nat \<Rightarrow> edit_op list \<Rightarrow> bool" where
  "starts_at i j [] = True"
| "starts_at i j (Equal old new # ops) = (fst old = i \<and> i < snd old \<and> fst new = j \<and> j < snd new)"
| "starts_at i j (Insert new # ops) = (fst new = j \<and> j < snd new)"
| "starts_at i j (Delete old # ops) = (fst old = i \<and> i < snd old)"
| "starts_at i j (Replace old new # ops) = False"

section \<open>Auxiliary facts\<close>

subsection \<open>Property assignment and the update of the loaded object\<close>

lemma map_of_assign_existing:
  "map_of obj k \<noteq> None \<Longrightarrow> map_of (assign_existing k x obj) = (map_of obj)(k \<mapsto> x)"
  by (induction obj) (auto simp: fun_eq_iff)

lemma map_of_insert_index:
  "map_of obj k = None \<Longrightarrow> map_of (insert_index i (k, x) obj) = (map_of obj)(k \<mapsto> x)"
proof (induction obj)
  case Nil
  then show ?case by simp
next
  case (Cons p ps)
  then have "fst p \<noteq> k" and "map_of ps k = None"
    by (auto split: if_splits)
  with Cons.IH show ?case
    by (cases p) (auto simp: fun_eq_iff split: option.splits)
qed

lemma map_of_own_set: "map_of (own_set k x obj) = (map_of obj)(k \<mapsto> x)"
  by (auto simp: own_set_def map_of_assign_existing map_of_insert_index fun_eq_iff
      map_add_def split: option.splits)

lemma own_set_Nil: "own_set k x [] = [(k, x)]"
  by (simp add: own_set_def split: option.splits)

lemma map_of_stamp:
  "map_of (stamp m p n t) =
     (map_of m)(p \<mapsto> own_set (toString n) t (case map_of m p of None \<Rightarrow> [] | Some es \<Rightarrow> es))"
  by (auto simp: stamp_def Let_def map_of_own_set fun_eq_iff split: option.splits)

lemma entry_stamp:
  "entry (stamp m p n t) q k = (if q = p \<and> k = toString n then Some t else entry m q k)"
  by (auto simp: entry_def map_of_stamp map_of_own_set split: option.splits)

lemma stamp_new_document:
  "map_of m p = None \<Longrightarrow> map_of (stamp m p n t) p = Some [(toString n, t)]"
  by (simp add: map_of_stamp own_set_Nil)

subsection \<open>The key of a line\<close>

lemma digit_val_digit: "d < 10 \<Longrightarrow> digit_val (''0123456789'' ! d) = Some d"
proof -
  assume "d < 10"
  then have "d \<in> {0, 1, 2, 3, 4, 5, 6, 7, 8, 9}"
    by auto
  then show ?thesis
    by (auto simp: digit_val_def)
qed

lemma digits_val_snoc:
  "digits_val acc (cs @ [c]) =
     (case digits_val acc cs of
        None \<Rightarrow> None
      | Some a \<Rightarrow> (case digit_val c of None \<Rightarrow> None | Some d \<Rightarrow> Some (10 * a + d)))"
  by (induction cs arbitrary: acc) (auto split: option.splits)

lemma digits_val_toString: "digits_val 0 (toString n) = Some n"
proof (induction n rule: toString.induct)
  case (1 n)
  show ?case
  proof (cases "n < 10")
    case True
    then show ?thesis
      by (subst toString.simps) (simp add: digit_val_digit)
  next
    case False
    have "n mod 10 < 10" by simp
    with False 1 show ?thesis
      by (subst toString.simps) (simp add: digits_val_snoc digit_val_digit)
  qed
qed

lemma toString_inj: "toString a = toString b \<Longrightarrow> a = b"
  by (metis digits_val_toString option.inject)

subsection \<open>What the store operations touch\<close>

lemma loadMetadata_frame:
  "files (snd (loadMetadata rt v)) = files v"
  "faulty (snd (loadMetadata rt v)) = faulty v"
  "folders (snd (loadMetadata rt v)) = folders v"
  by (auto simp: loadMetadata_def adapter_read_def Let_def split: option.splits)

lemma loadMetadata_Inr_iff:
  "fst (loadMetadata rt v) = Inr m \<longleftrightarrow>
     Read METADATA_FILE \<notin> faulty v \<and>
     (\<exists>c. files v METADATA_FILE = Some c \<and> JSON_parse rt c = Some m)"
  by (auto simp: loadMetadata_def adapter_read_def Let_def split: option.splits)

lemma saveMetadata_faulty: "faulty (snd (saveMetadata rt m v)) = faulty v"
  by (auto simp: saveMetadata_def vault_createFolder_def vault_create_def adapter_write_def
      Let_def split: option.splits)

lemma saveMetadata_writable:
  "Write METADATA_FILE \<notin> faulty v \<Longrightarrow>
     fst (saveMetadata rt m v) = Inr () \<and>
     files (snd (saveMetadata rt m v)) = (files v)(METADATA_FILE \<mapsto> JSON_stringify rt m)"
  by (auto simp: saveMetadata_def vault_createFolder_def vault_create_def adapter_write_def
      Let_def split: option.splits)

lemma saveMetadata_rejected:
  "fst (saveMetadata rt m v) = Inl e \<Longrightarrow> e = IOError \<and> files (snd (saveMetadata rt m v)) = files v"
  by (auto simp: saveMetadata_def vault_createFolder_def vault_create_def adapter_write_def
      Let_def split: option.splits if_splits)

lemma saveMetadata_files:
  "files (snd (saveMetadata rt m v)) =
     (if fst (saveMetadata rt m v) = Inr () then (files v)(METADATA_FILE \<mapsto> JSON_stringify rt m)
      else files v)"
  by (auto simp: saveMetadata_def vault_createFolder_def vault_create_def adapter_write_def
      Let_def split: option.splits if_splits)


lemma updateLineTimestamp_vault:
  assumes "fst (loadMetadata rt v) = Inr m"
  shows "snd (updateLineTimestamp rt ws p n t v) =
           snd (saveMetadata rt (stamp m p n t) (snd (loadMetadata rt v)))"
  using assms
  by (cases "loadMetadata rt v")
     (auto simp: updateLineTimestamp_def Let_def split: prod.splits sum.splits)

lemma updateLineTimestamp_rejected_load:
  assumes "fst (loadMetadata rt v) = Inl e"
  shows "updateLineTimestamp rt ws p n t v = (Inl e, snd (loadMetadata rt v))"
  using assms
  by (cases "loadMetadata rt v") (auto simp: updateLineTimestamp_def)

subsection \<open>The change handler\<close>

lemma handleEditorChange_gated:
  "activeFile ws = None \<or> updatedTimestamp p \<Longrightarrow> handleEditorChange rt ws line now p = (Inr (), p)"
  by (auto simp: handleEditorChange_def split: option.splits)

lemma handleEditorChange_open:
  assumes "activeFile ws = Some file" and "\<not> updatedTimestamp p"
  shows "fst (handleEditorChange rt ws line now p)
           = fst (updateLineTimestamp rt ws (path file) line now (app p))"
    and "app (snd (handleEditorChange rt ws line now p))
           = snd (updateLineTimestamp rt ws (path file) line now (app p))"
    and "updatedTimestamp (snd (handleEditorChange rt ws line now p))
           = (fst (updateLineTimestamp rt ws (path file) line now (app p)) = Inr ())"
    and "updateTimer (snd (handleEditorChange rt ws line now p))
           = (updateTimer p \<or> fst (updateLineTimestamp rt ws (path file) line now (app p)) = Inr ())"
  using assms
  by (auto simp: handleEditorChange_def Let_def split: prod.splits sum.splits)

lemma updateLineTimestamp_result:
  assumes "fst (loadMetadata rt v) = Inr m"
  shows "fst (updateLineTimestamp rt ws p n t v) =
           (case fst (saveMetadata rt (stamp m p n t) (snd (loadMetadata rt v))) of
              Inl e \<Rightarrow> Inl e
            | Inr u \<Rightarrow> (case overlayTimestamps ws (activeView ws) (stamp m p n t) of
                          Inl e \<Rightarrow> Inl e | Inr badges \<Rightarrow> Inr ()))"
  using assms
  by (cases "loadMetadata rt v")
     (auto simp: updateLineTimestamp_def Let_def split: prod.splits sum.splits)

lemma overlay_loop2_eq: "overlay_loop2 ws ts ls i bs = overlay_loop ws ts ls i bs"
  by (induction ls arbitrary: i bs) (auto split: option.splits)

subsection \<open>The line diff\<close>

lemma group_inserts: "group_steps i j (replicate (Suc n) Ins) = [Insert (j, j + Suc n)]"
  by (induction n arbitrary: j) simp_all

lemma group_deletes: "group_steps i j (replicate (Suc n) Del) = [Delete (i, i + Suc n)]"
  by (induction n arbitrary: i) simp_all

lemma group_keeps:
  "group_steps i j (replicate (Suc n) Keep) = [Equal (i, i + Suc n) (j, j + Suc n)]"
  by (induction n arbitrary: i j) simp_all

lemma line_steps_same: "line_steps xs xs = replicate (length xs) Keep"
  by (induction xs) simp_all

lemma line_steps_from_empty: "line_steps [] ys = replicate (length ys) Ins"
  by (simp add: map_replicate_const)

lemma line_steps_to_empty: "line_steps xs [] = replicate (length xs) Del"
  by (cases xs) (simp_all add: map_replicate_const)

lemma kept_lines: "length (filter (\<lambda>s. s = Keep) (line_steps xs ys)) = lcs_length xs ys"
  by (induction xs ys rule: line_steps.induct) auto

lemma slice_empty: "slice xs (a, a) = []"
  by (simp add: slice_def)

lemma slice_step:
  assumes "i < length xs" and "i < b"
  shows "slice xs (i, b) = xs ! i # slice xs (Suc i, b)"
proof -
  have "b - i = Suc (b - Suc i)"
    using assms(2) by arith
  moreover have "drop i xs = xs ! i # drop (Suc i) xs"
    using assms(1) by (simp add: Cons_nth_drop_Suc)
  ultimately show ?thesis
    by (simp add: slice_def)
qed

lemma drop_eq_Cons:
  assumes "drop n xs = y # ys"
  shows "n < length xs" and "xs ! n = y" and "drop (Suc n) xs = ys"
proof -
  show "n < length xs"
    using assms by (cases "n < length xs") auto
  show "xs ! n = y"
    using assms by (rule nth_via_drop)
  have "drop (Suc n) xs = drop 1 (drop n xs)"
    by simp
  then show "drop (Suc n) xs = ys"
    by (simp add: assms)
qed

lemma replay_fuse: "replay (fuse ops) oldLines newLines = replay ops oldLines newLines"
  by (induction ops rule: fuse.induct) (simp_all add: replay_def)

lemma starts_at_push:
  "starts_at (if s = Ins then i else Suc i) (if s = Del then j else Suc j) ops
     \<Longrightarrow> starts_at i j (push_step s i j ops)"
  by (cases "(s, i, j, ops)" rule: push_step.cases) auto

lemma starts_at_group: "starts_at i j (group_steps i j steps)"
proof (induction steps arbitrary: i j)
  case Nil
  then show ?case by simp
next
  case (Cons s steps)
  show ?case
    using Cons [of "Suc i" "Suc j"] Cons [of i "Suc j"] Cons [of "Suc i" j]
    by (cases s) (auto intro!: starts_at_push)
qed

lemma replay_push_Keep:
  "starts_at (Suc i) (Suc j) ops \<Longrightarrow> i < length oldLines \<Longrightarrow>
     replay (push_step Keep i j ops) oldLines newLines = oldLines ! i # replay ops oldLines newLines"
  by (cases "(Keep, i, j, ops)" rule: push_step.cases)
     (auto simp: replay_def slice_step slice_empty)

lemma replay_push_Ins:
  "starts_at i (Suc j) ops \<Longrightarrow> j < length newLines \<Longrightarrow>
     replay (push_step Ins i j ops) oldLines newLines = newLines ! j # replay ops oldLines newLines"
  by (cases "(Ins, i, j, ops)" rule: push_step.cases)
     (auto simp: replay_def slice_step slice_empty)

lemma replay_push_Del:
  "replay (push_step Del i j ops) oldLines newLines = replay ops oldLines newLines"
  by (cases "(Del, i, j, ops)" rule: push_step.cases) (auto simp: replay_def)

lemma replay_inserts:
  "drop j newLines = ys \<Longrightarrow>
     replay (group_steps i j (map (\<lambda>y. Ins) ys)) oldLines newLines = ys"
proof (induction ys arbitrary: j)
  case Nil
  then show ?case by (simp add: replay_def)
next
  case (Cons y ys)
  note d = drop_eq_Cons [OF Cons.prems]
  show ?case
    using Cons.IH [OF d(3)] by (simp add: replay_push_Ins [OF starts_at_group d(1)] d(2))
qed

lemma replay_deletes:
  "replay (group_steps i j (map (\<lambda>x. Del) xs)) oldLines newLines = []"
  by (induction xs arbitrary: i) (simp_all add: replay_push_Del, simp add: replay_def)

lemma replay_group:
  "drop i oldLines = xs \<Longrightarrow> drop j newLines = ys \<Longrightarrow>
     replay (group_steps i j (line_steps xs ys)) oldLines newLines = ys"
proof (induction xs ys arbitrary: i j rule: line_steps.induct)
  case (1 ys)
  then show ?case by (simp add: replay_inserts)
next
  case (2 x xs)
  show ?case
    using replay_deletes [of i j "x # xs"] 2(2) by simp
next
  case (3 x xs y ys)
  note dx = drop_eq_Cons [OF 3(4)] and dy = drop_eq_Cons [OF 3(5)]
  show ?case
  proof (cases "x = y")
    case True
    with 3(1) [OF True dx(3) dy(3)] show ?thesis
      by (simp add: replay_push_Keep [OF starts_at_group dx(1)] dx(2))
  next
    case False
    show ?thesis
    proof (cases "lcs_length (x # xs) ys \<le> lcs_length xs (y # ys)")
      case True
      with False 3(2) [OF False True dx(3) 3(5)] show ?thesis
        by (simp add: replay_push_Del)
    next
      case ins: False
      with False 3(3) [OF False ins 3(4) dy(3)] show ?thesis
        by (simp add: replay_push_Ins [OF starts_at_group dy(1)] dy(2))
    qed
  qed
qed

lemma replay_computeEditScript:
  "replay (computeEditScript oldLines newLines) oldLines newLines = newLines"
  by (simp add: computeEditScript_def replay_fuse replay_group)

text \<open>The scenarios 5 and 6 of the spec's section 8, a line inserted and a line edited
  in place.\<close>

lemma computeEditScript_insert_scenario:
  "computeEditScript [''a'', ''b'', ''c''] [''a'', ''x'', ''b'', ''c'']
     = [Equal (0, 1) (0, 1), Insert (1, 2), Equal (1, 3) (2, 4)]"
  by (simp add: computeEditScript_def)

lemma computeEditScript_replace_scenario:
  "computeEditScript [''a'', ''b'', ''c''] [''a'', ''B'', ''c'']
     = [Equal (0, 1) (0, 1), Replace (1, 2) (1, 2), Equal (2, 3) (2, 3)]"
  by (simp add: computeEditScript_def)

subsection \<open>Reading a printed store\<close>

lemma hex_val_hex_digit: "d < 16 \<Longrightarrow> hex_val (hex_digit d) = Some d"
proof -
  assume "d < 16"
  then have "d = 0 \<or> d = 1 \<or> d = 2 \<or> d = 3 \<or> d = 4 \<or> d = 5 \<or> d = 6 \<or> d = 7
      \<or> d = 8 \<or> d = 9 \<or> d = 10 \<or> d = 11 \<or> d = 12 \<or> d = 13 \<or> d = 14 \<or> d = 15"
    by arith
  then show ?thesis
    by (elim disjE) (simp_all add: hex_val_def hex_digit_def)
qed

lemma hex4_control:
  assumes "n < 32"
  shows "hex4 (CHR ''0'') (CHR ''0'') (hex_digit (n div 16)) (hex_digit (n mod 16)) = Some n"
proof -
  have "n div 16 < 16" using assms by simp
  moreover have "n mod 16 < 16" by simp
  ultimately show ?thesis
    by (simp add: hex4_def hex_val_hex_digit) (simp add: hex_val_def)
qed

lemma lex_string_char:
  "lex_string acc (json_char c @ tail) = lex_string (c # acc) tail"
proof -
  consider (quote) "c = CHR 0x22" | (backslash) "c = CHR 0x5C"
    | (short) "c \<in> {CHR 0x08, CHR 0x0C, CHR 0x0A, CHR 0x0D, CHR 0x09}"
    | (control) "c \<notin> {CHR 0x22, CHR 0x5C, CHR 0x08, CHR 0x0C, CHR 0x0A, CHR 0x0D, CHR 0x09}"
        "(of_char c :: nat) < 32"
    | (plain) "c \<notin> {CHR 0x22, CHR 0x5C, CHR 0x08, CHR 0x0C, CHR 0x0A, CHR 0x0D, CHR 0x09}"
        "\<not> (of_char c :: nat) < 32"
    by blast
  then show ?thesis
  proof cases
    case quote
    then show ?thesis by (simp add: json_char_def unescape_def)
  next
    case backslash
    then show ?thesis by (simp add: json_char_def unescape_def)
  next
    case short
    then show ?thesis by (auto simp: json_char_def unescape_def)
  next
    case control
    then show ?thesis
      by (simp add: json_char_def hex4_control)
  next
    case plain
    then show ?thesis by (simp add: json_char_def)
  qed
qed

lemma lex_string_chars:
  "lex_string acc (concat (map json_char s) @ CHR 0x22 # rest)
     = map_option (Cons (Str (rev acc @ s))) (lex rest)"
proof (induction s arbitrary: acc)
  case Nil
  then show ?case by simp
next
  case (Cons c s)
  have "lex_string acc (concat (map json_char (c # s)) @ CHR 0x22 # rest)
          = lex_string acc (json_char c @ (concat (map json_char s) @ CHR 0x22 # rest))"
    by simp
  also have "\<dots> = lex_string (c # acc) (concat (map json_char s) @ CHR 0x22 # rest)"
    by (rule lex_string_char)
  also have "\<dots> = map_option (Cons (Str (rev (c # acc) @ s))) (lex rest)"
    by (rule Cons.IH)
  finally show ?case by simp
qed

lemma lex_json_string: "lex (json_string s @ rest) = map_option (Cons (Str s)) (lex rest)"
  using lex_string_chars [of "[]" s rest] by (simp add: json_string_def is_ws_def)

lemma lex_ws: "list_all is_ws ind \<Longrightarrow> lex (ind @ rest) = lex rest"
  by (induction ind) simp_all

lemma lex_members:
  assumes f: "\<And>v rest. lex (f v @ rest) = map_option ((@) (g v)) (lex rest)"
    and ind: "list_all is_ws ind"
  shows "lex (json_members ind f ms @ rest) = map_option ((@) (members_tokens g ms)) (lex rest)"
proof (induction ms arbitrary: rest rule: induct_list012)
  case 1
  then show ?case by (simp add: option.map_ident)
next
  case (2 kv)
  show ?case
    by (simp add: lex_ws [OF ind] lex_json_string f is_ws_def option.map_comp comp_def)
next
  case (3 kv kv' ms)
  have "lex (json_members ind f (kv # kv' # ms) @ rest)
      = map_option (Cons (Str (fst kv)))
          (map_option (Cons Colon)
            (map_option ((@) (g (snd kv)))
              (map_option (Cons Comma) (lex (json_members ind f (kv' # ms) @ rest)))))"
    by (simp add: lex_ws [OF ind] lex_json_string f is_ws_def)
  then show ?case
    by (simp add: "3.IH"(2) option.map_comp comp_def)
qed

lemma lex_object:
  assumes f: "\<And>v rest. lex (f v @ rest) = map_option ((@) (g v)) (lex rest)"
    and ind: "list_all is_ws ind"
  shows "lex (json_object ind f obj @ rest) = map_option ((@) (object_tokens g obj)) (lex rest)"
proof (cases obj)
  case Nil
  then show ?thesis
    by (cases "lex rest") (simp_all add: json_object_def object_tokens_def is_ws_def)
next
  case (Cons kv kvs)
  have ind2: "list_all is_ws (ind @ ''  '')"
    using ind by (simp add: is_ws_def)
  have "lex (json_object ind f obj @ rest)
      = map_option (Cons LBrace)
          (lex (json_members (ind @ ''  '') f obj @ (CHR 0x0A # ind @ ''}'' @ rest)))"
    using Cons by (simp add: json_object_def is_ws_def)
  also have "\<dots> = map_option (Cons LBrace)
          (map_option ((@) (members_tokens g obj)) (lex (CHR 0x0A # ind @ ''}'' @ rest)))"
    by (simp only: lex_members [OF f ind2])
  also have "lex (CHR 0x0A # ind @ ''}'' @ rest) = map_option (Cons RBrace) (lex rest)"
    by (simp add: is_ws_def lex_ws [OF ind])
  finally show ?thesis
    by (cases "lex rest") (simp_all add: object_tokens_def)
qed

lemma lex_render:
  "lex (render m) = Some (object_tokens (object_tokens (\<lambda>x. [Str x])) m)"
proof -
  have str: "lex (json_string v @ rest) = map_option ((@) [Str v]) (lex rest)" for v rest
    by (cases "lex rest") (simp_all add: lex_json_string)
  have inner: "lex (json_object ''  '' json_string v @ rest)
      = map_option ((@) (object_tokens (\<lambda>x. [Str x]) v)) (lex rest)" for v rest
    by (rule lex_object [OF str]) (simp add: is_ws_def)
  have "lex (json_object [] (json_object ''  '' json_string) m @ [])
      = map_option ((@) (object_tokens (object_tokens (\<lambda>x. [Str x])) m)) (lex [])"
    by (rule lex_object [OF inner]) simp
  then show ?thesis
    by (simp add: render_def)
qed

lemma members_tokens_nonempty:
  "ms \<noteq> [] \<Longrightarrow> \<exists>k ts. members_tokens g ms = Str k # Colon # ts"
  by (induction ms rule: induct_list012) auto

lemma parse_inner_members:
  "ms \<noteq> [] \<Longrightarrow>
     parse_inner acc k es (members_tokens (\<lambda>x. [Str x]) ms @ RBrace # ts)
       = parse_next (own_set k (assign_all es ms) acc) ts"
proof (induction ms arbitrary: es rule: induct_list012)
  case 1
  then show ?case by simp
next
  case (2 kv)
  show ?case
    by (subst parse_inner.simps) (simp add: assign_all_def)
next
  case (3 kv kv' ms)
  have "parse_inner acc k es (members_tokens (\<lambda>x. [Str x]) (kv # kv' # ms) @ RBrace # ts)
      = parse_inner acc k (own_set (fst kv) (snd kv) es)
          (members_tokens (\<lambda>x. [Str x]) (kv' # ms) @ RBrace # ts)"
    by (subst parse_inner.simps) simp
  with "3.IH"(2) [of "own_set (fst kv) (snd kv) es"] show ?case
    by (simp add: assign_all_def)
qed

lemma parse_outer_member:
  "parse_outer acc (Str k # Colon # object_tokens (\<lambda>x. [Str x]) es @ ts)
     = parse_next (own_set k (assign_all [] es) acc) ts"
proof (cases es)
  case Nil
  then show ?thesis
    by (subst parse_outer.simps) (simp add: object_tokens_def assign_all_def)
next
  case (Cons e es')
  then obtain l more where start: "members_tokens (\<lambda>x. [Str x]) es = Str l # Colon # more"
    using members_tokens_nonempty [of es] by blast
  have "parse_outer acc (Str k # Colon # object_tokens (\<lambda>x. [Str x]) es @ ts)
      = parse_inner acc k [] (members_tokens (\<lambda>x. [Str x]) es @ RBrace # ts)"
    by (subst parse_outer.simps) (simp add: object_tokens_def start)
  with Cons show ?thesis
    by (simp add: parse_inner_members)
qed

lemma parse_outer_members:
  "m \<noteq> [] \<Longrightarrow>
     parse_outer acc (members_tokens (object_tokens (\<lambda>x. [Str x])) m @ [RBrace])
       = Some (build acc m)"
proof (induction m arbitrary: acc rule: induct_list012)
  case 1
  then show ?case by simp
next
  case (2 kv)
  show ?case
    using parse_outer_member [of acc "fst kv" "snd kv" "[RBrace]"]
    by (simp add: build_def parse_next.simps)
next
  case (3 kv kv' m)
  have "parse_outer acc (members_tokens (object_tokens (\<lambda>x. [Str x])) (kv # kv' # m) @ [RBrace])
      = parse_next (own_set (fst kv) (assign_all [] (snd kv)) acc)
          (Comma # members_tokens (object_tokens (\<lambda>x. [Str x])) (kv' # m) @ [RBrace])"
    using parse_outer_member [of acc "fst kv" "snd kv"
        "Comma # members_tokens (object_tokens (\<lambda>x. [Str x])) (kv' # m) @ [RBrace]"]
    by simp
  also have "\<dots> = parse_outer (own_set (fst kv) (assign_all [] (snd kv)) acc)
          (members_tokens (object_tokens (\<lambda>x. [Str x])) (kv' # m) @ [RBrace])"
    by (subst parse_next.simps) simp
  also have "\<dots> = Some (build (own_set (fst kv) (assign_all [] (snd kv)) acc) (kv' # m))"
    by (rule "3.IH"(2)) simp
  finally show ?case
    by (simp add: build_def)
qed

lemma parse_tokens_object:
  "parse_tokens (object_tokens (object_tokens (\<lambda>x. [Str x])) m) = Some (build [] m)"
proof (cases m)
  case Nil
  then show ?thesis by (simp add: parse_tokens_def object_tokens_def build_def)
next
  case (Cons kv kvs)
  then obtain k more where start:
    "members_tokens (object_tokens (\<lambda>x. [Str x])) m = Str k # Colon # more"
    using members_tokens_nonempty [of m] by blast
  have "parse_tokens (object_tokens (object_tokens (\<lambda>x. [Str x])) m)
      = parse_outer [] (members_tokens (object_tokens (\<lambda>x. [Str x])) m @ [RBrace])"
    by (simp add: parse_tokens_def object_tokens_def start)
  with Cons show ?thesis
    by (simp add: parse_outer_members)
qed

lemma parse_json_render: "parse_json (render m) = Some (build [] m)"
  by (simp add: parse_json_def lex_render parse_tokens_object)

subsection \<open>Objects stay objects\<close>

lemma ordered_keys_butlast: "ordered_keys (ks @ [k]) \<Longrightarrow> ordered_keys ks"
  by (induction ks rule: induct_list012) auto

lemma ordered_keys_before_index:
  "ordered_keys (ks @ [k]) \<Longrightarrow> array_index k = Some i \<Longrightarrow> k' \<in> set ks \<Longrightarrow>
     \<exists>j. array_index k' = Some j \<and> j < i"
proof (induction ks arbitrary: k' rule: induct_list012)
  case 1
  then show ?case by simp
next
  case (2 k1)
  then show ?case
    by (auto simp: index_before_def split: option.splits)
next
  case (3 k1 k2 ks)
  from "3.prems"(1) have first: "index_before k1 k2" and rest: "ordered_keys ((k2 # ks) @ [k])"
    by simp_all
  from "3.IH"(2) [OF rest "3.prems"(2)] obtain j2 where j2: "array_index k2 = Some j2" "j2 < i"
    by auto
  show ?case
  proof (cases "k' = k1")
    case True
    with first j2 show ?thesis
      by (auto simp: index_before_def split: option.splits)
  next
    case False
    with "3.prems"(3) have "k' \<in> set (k2 # ks)" by simp
    from "3.IH"(2) [OF rest "3.prems"(2) this] show ?thesis .
  qed
qed

lemma insert_index_last:
  "(\<And>p. p \<in> set obj \<Longrightarrow> \<exists>j. array_index (fst p) = Some j \<and> j < i) \<Longrightarrow>
     insert_index i kv obj = obj @ [kv]"
proof (induction obj)
  case Nil
  then show ?case by simp
next
  case (Cons p obj)
  from Cons.prems [of p] obtain j where "array_index (fst p) = Some j" "j < i"
    by auto
  moreover have "insert_index i kv obj = obj @ [kv]"
    by (rule Cons.IH) (simp add: Cons.prems)
  ultimately show ?case by simp
qed

lemma map_of_None_keys: "map_of obj k = None \<longleftrightarrow> k \<notin> set (map fst obj)"
  by (simp add: map_of_eq_None_iff)

lemma own_set_last:
  assumes "js_object (obj @ [(k, x)])"
  shows "own_set k x obj = obj @ [(k, x)]"
proof -
  from assms have absent: "map_of obj k = None"
    and ordered: "ordered_keys (map fst obj @ [k])"
    by (auto simp: js_object_def map_of_None_keys)
  show ?thesis
  proof (cases "array_index k")
    case None
    with absent show ?thesis by (simp add: own_set_def)
  next
    case (Some i)
    have "insert_index i (k, x) obj = obj @ [(k, x)]"
    proof (rule insert_index_last)
      fix p assume "p \<in> set obj"
      then have "fst p \<in> set (map fst obj)" by simp
      from ordered_keys_before_index [OF ordered Some this]
      show "\<exists>j. array_index (fst p) = Some j \<and> j < i" .
    qed
    with absent Some show ?thesis by (simp add: own_set_def)
  qed
qed

lemma js_object_butlast: "js_object (obj @ [kv]) \<Longrightarrow> js_object obj"
  by (auto simp: js_object_def dest: ordered_keys_butlast)

lemma assign_all_js_object: "js_object obj \<Longrightarrow> assign_all [] obj = obj"
proof (induction obj rule: rev_induct)
  case Nil
  then show ?case by (simp add: assign_all_def)
next
  case (snoc kv obj)
  have "assign_all [] (obj @ [kv]) = own_set (fst kv) (snd kv) (assign_all [] obj)"
    by (simp add: assign_all_def)
  also have "assign_all [] obj = obj"
    using snoc by (auto dest: js_object_butlast)
  also have "own_set (fst kv) (snd kv) obj = obj @ [kv]"
    using own_set_last [of obj "fst kv" "snd kv"] snoc.prems by simp
  finally show ?case .
qed

lemma build_js_store: "js_store m \<Longrightarrow> build [] m = m"
proof (induction m rule: rev_induct)
  case Nil
  then show ?case by (simp add: build_def)
next
  case (snoc kv m)
  from snoc.prems have whole: "js_object (m @ [kv])" and inner: "js_object (snd kv)"
    and front: "js_store m"
    by (auto simp: js_store_def dest: js_object_butlast)
  have "build [] (m @ [kv]) = own_set (fst kv) (assign_all [] (snd kv)) (build [] m)"
    by (simp add: build_def)
  also have "\<dots> = own_set (fst kv) (snd kv) m"
    by (simp add: assign_all_js_object [OF inner] snoc.IH [OF front])
  also have "\<dots> = m @ [kv]"
    using own_set_last [of m "fst kv" "snd kv"] whole by simp
  finally show ?case .
qed

lemma parse_json_render_store: "js_store m \<Longrightarrow> parse_json (render m) = Some m"
  by (simp add: parse_json_render build_js_store)

lemma digit_val_Some: "digit_val c = Some d \<Longrightarrow> d < 10 \<and> ''0123456789'' ! d = c"
  by (auto simp: digit_val_def split: if_splits)

lemma toString_digits:
  assumes "k \<noteq> []" and "hd k = CHR ''0'' \<Longrightarrow> tl k = []" and "digits_val 0 k = Some i"
  shows "toString i = k"
  using assms
proof (induction k arbitrary: i rule: rev_induct)
  case Nil
  then show ?case by simp
next
  case (snoc c ks)
  from snoc.prems(3) obtain a d where a: "digits_val 0 ks = Some a" and d: "digit_val c = Some d"
    and i: "i = 10 * a + d"
    by (auto simp: digits_val_snoc split: option.splits)
  from digit_val_Some [OF d] have d10: "d < 10" and dc: "''0123456789'' ! d = c"
    by simp_all
  show ?case
  proof (cases "ks = []")
    case True
    with a have "a = 0" by simp
    with i d10 dc True show ?thesis
      by (subst toString.simps) simp
  next
    case False
    with snoc.prems(2) have nz: "hd ks \<noteq> CHR ''0''"
      by (cases ks) auto
    have ks: "toString a = ks"
      by (rule snoc.IH [OF False _ a]) (simp add: nz)
    have "a \<noteq> 0"
    proof
      assume "a = 0"
      with ks have "ks = ''0''" by (subst (asm) toString.simps) simp
      with nz show False by simp
    qed
    with i d10 have "\<not> i < 10" "i div 10 = a" "i mod 10 = d"
      by simp_all
    with ks dc show ?thesis
      by (subst toString.simps) simp
  qed
qed

lemma array_index_toString: "array_index k = Some i \<Longrightarrow> toString i = k"
  by (rule toString_digits)
     (auto simp: array_index_def split: list.splits if_splits option.splits)

lemma array_index_inj: "array_index k = Some i \<Longrightarrow> array_index k' = Some i \<Longrightarrow> k = k'"
  using array_index_toString by metis

lemma keys_assign_existing: "map fst (assign_existing k x obj) = map fst obj"
  by (induction obj) auto

lemma set_insert_index: "set (map fst (insert_index i kv obj)) = insert (fst kv) (set (map fst obj))"
  by (induction obj) (auto split: option.splits)

lemma distinct_insert_index:
  "distinct (map fst obj) \<Longrightarrow> fst kv \<notin> set (map fst obj) \<Longrightarrow>
     distinct (map fst (insert_index i kv obj))"
proof (induction obj)
  case Nil
  then show ?case by simp
next
  case (Cons p obj)
  then show ?case
    using set_insert_index [of i kv obj]
    by (auto split: option.splits)
qed

lemma ordered_keys_Cons:
  "ordered_keys (k # ks) \<longleftrightarrow> (case ks of [] \<Rightarrow> True | k' # ks' \<Rightarrow> index_before k k' \<and> ordered_keys ks)"
  by (cases ks) auto

lemma hd_insert_index:
  "map fst (insert_index i kv obj) \<noteq> [] \<and>
   (hd (map fst (insert_index i kv obj)) = fst kv \<or>
    (obj \<noteq> [] \<and> hd (map fst (insert_index i kv obj)) = fst (hd obj)
       \<and> (\<exists>j. array_index (fst (hd obj)) = Some j \<and> j < i)))"
  by (cases obj) (auto split: option.splits)

lemma ordered_insert_index:
  assumes "array_index (fst kv) = Some i"
  shows "ordered_keys (map fst obj) \<Longrightarrow> fst kv \<notin> set (map fst obj) \<Longrightarrow>
     ordered_keys (map fst (insert_index i kv obj))"
proof (induction obj)
  case Nil
  then show ?case by simp
next
  case (Cons p obj)
  have tail: "ordered_keys (map fst obj)"
    using Cons.prems(1) by (cases obj) auto
  have absent: "fst kv \<notin> set (map fst obj)" and differ: "fst p \<noteq> fst kv"
    using Cons.prems(2) by auto
  show ?case
  proof (cases "array_index (fst p)")
    case None
    with Cons.prems(1) show ?thesis
      by (simp add: index_before_def)
  next
    case (Some j)
    show ?thesis
    proof (cases "j < i")
      case True
      have rest: "ordered_keys (map fst (insert_index i kv obj))"
        by (rule Cons.IH [OF tail absent])
      from hd_insert_index [of i kv obj]
      obtain k' ks' where shape: "map fst (insert_index i kv obj) = k' # ks'"
        and head: "k' = fst kv \<or> (obj \<noteq> [] \<and> k' = fst (hd obj))"
        by (cases "map fst (insert_index i kv obj)") auto
      have "index_before (fst p) k'"
      proof (cases "k' = fst kv")
        case True
        with Some \<open>j < i\<close> assms show ?thesis by (simp add: index_before_def)
      next
        case False
        with head have "obj \<noteq> []" "k' = fst (hd obj)" by auto
        with Cons.prems(1) show ?thesis by (cases obj) auto
      qed
      with rest shape Some True show ?thesis by simp
    next
      case False
      have "j \<noteq> i"
        using array_index_inj [OF Some] assms differ by auto
      with False have "i < j" by simp
      with Some False assms Cons.prems(1) show ?thesis
        by (simp add: index_before_def)
    qed
  qed
qed

lemma ordered_keys_snoc_plain:
  "ordered_keys ks \<Longrightarrow> array_index k = None \<Longrightarrow> ordered_keys (ks @ [k])"
  by (induction ks rule: induct_list012) (auto simp: index_before_def)

lemma js_object_own_set: "js_object obj \<Longrightarrow> js_object (own_set k x obj)"
proof -
  assume obj: "js_object obj"
  show ?thesis
  proof (cases "map_of obj k")
    case (Some y)
    with obj show ?thesis
      by (simp add: own_set_def js_object_def keys_assign_existing)
  next
    case None
    then have absent: "k \<notin> set (map fst obj)"
      by (simp add: map_of_None_keys)
    show ?thesis
    proof (cases "array_index k")
      case no_index: None
      with None obj absent show ?thesis
        by (simp add: own_set_def js_object_def ordered_keys_snoc_plain)
    next
      case (Some i)
      with None obj absent show ?thesis
        using distinct_insert_index [of obj "(k, x)" i] ordered_insert_index [of "(k, x)" i obj]
        by (simp add: own_set_def js_object_def)
    qed
  qed
qed

lemma values_own_set:
  "P x \<Longrightarrow> list_all P (map snd obj) \<Longrightarrow> list_all P (map snd (own_set k x obj))"
proof -
  assume x: "P x" and all: "list_all P (map snd obj)"
  have a: "list_all P (map snd (assign_existing k x obj))"
    using all x by (induction obj) auto
  have b: "list_all P (map snd (insert_index i (k, x) obj))" for i
    using all x by (induction obj) (auto split: option.splits)
  show ?thesis
    using a b all x by (auto simp: own_set_def split: option.splits)
qed

lemma js_store_own_set: "js_store m \<Longrightarrow> js_object es \<Longrightarrow> js_store (own_set k es m)"
  by (simp add: js_store_def js_object_own_set values_own_set)

lemma js_object_Nil: "js_object []"
  by (simp add: js_object_def)

lemma js_store_lookup: "js_store m \<Longrightarrow> map_of m k = Some es \<Longrightarrow> js_object es"
  by (auto simp: js_store_def list_all_iff dest!: map_of_SomeD)

lemma js_store_stamp: "js_store m \<Longrightarrow> js_store (stamp m p n t)"
proof -
  assume m: "js_store m"
  define m1 where "m1 = (if map_of m p = None then own_set p [] m else m)"
  have m1: "js_store m1"
    using m by (simp add: m1_def js_store_own_set js_object_Nil)
  show ?thesis
  proof (cases "map_of m1 p")
    case None
    with m1 show ?thesis by (simp add: stamp_def m1_def [symmetric])
  next
    case (Some es)
    with m1 have "js_object es" by (rule js_store_lookup)
    with m1 Some show ?thesis
      by (simp add: stamp_def m1_def [symmetric] js_store_own_set js_object_own_set)
  qed
qed

lemma js_object_assign_all: "js_object obj \<Longrightarrow> js_object (assign_all obj ms)"
  by (induction ms arbitrary: obj) (simp_all add: assign_all_def js_object_own_set)

lemma parse_js_store:
  "(js_store acc \<longrightarrow> parse_outer acc ts = Some m \<longrightarrow> js_store m)"
  "(js_store acc \<longrightarrow> js_object es \<longrightarrow> parse_inner acc k es ts = Some m \<longrightarrow> js_store m)"
  "(js_store acc \<longrightarrow> parse_next acc ts = Some m \<longrightarrow> js_store m)"
proof (induction acc ts and acc k es ts and acc ts rule: parse_outer_parse_inner_parse_next.induct)
  case (1 acc ts)
  show ?case
    apply (subst parse_outer.simps)
    using 1 by (auto split: list.splits token.splits simp: js_store_own_set js_object_Nil)
next
  case (2 acc k es ts)
  show ?case
    apply (subst parse_inner.simps)
    using 2 by (auto split: list.splits token.splits simp: js_store_own_set js_object_own_set)
next
  case (3 acc ts)
  show ?case
    apply (subst parse_next.simps)
    using 3 by (auto split: list.splits token.splits)
qed

lemma parse_json_js_store: "parse_json c = Some m \<Longrightarrow> js_store m"
  using parse_js_store(1) [of "[]" _ m]
  by (auto simp: parse_json_def parse_tokens_def js_store_def js_object_def
      split: option.splits list.splits token.splits if_splits)

subsection \<open>Unfolding for closed inputs\<close>

lemmas eval_defs =
  handleEditorChange_def updateLineTimestamp_def loadMetadata_def saveMetadata_def
  handleEditorChange2_def updateLineTimestamp2_def loadMetadata2_def saveMetadata2_def
  adapter_read_def vault_createFolder_def vault_create_def adapter_write_def
  overlayTimestamps_def overlayTimestamps2_def stamp_def stamp2_def own_set_def
  array_index_def digit_val_def toString.simps
  sample_js_def vault_with_def editing_def loaded_plugin_def timerExpired_def run_def
  render_def json_object_def json_string_def
  json_char_def METADATA_FILE_def METADATA_DIR_def

lemmas json_eval_defs =
  json_runtime_def parse_json_def parse_tokens_def parse_outer.simps parse_inner.simps
  parse_next.simps is_ws_def unescape_def compact_text_def vault_holding_def
  js_store_def js_object_def index_before_def

lemma round_trip_given_codec:
  assumes codec: "JSON_parse rt (JSON_stringify rt m) = Some m"
    and u_ok: "Read METADATA_FILE \<notin> faulty u" "Write METADATA_FILE \<notin> faulty u"
  shows "fst (saveMetadata rt m u) = Inr ()"
    and "files (snd (saveMetadata rt m u)) = (files u)(METADATA_FILE \<mapsto> JSON_stringify rt m)"
    and "fst (loadMetadata rt (snd (saveMetadata rt m u))) = Inr m"
proof -
  show ok: "fst (saveMetadata rt m u) = Inr ()"
    and files_u: "files (snd (saveMetadata rt m u)) = (files u)(METADATA_FILE \<mapsto> JSON_stringify rt m)"
    using saveMetadata_writable [OF u_ok(2)] by simp_all
  show "fst (loadMetadata rt (snd (saveMetadata rt m u))) = Inr m"
    using codec u_ok(1) by (simp add: loadMetadata_Inr_iff saveMetadata_faulty files_u)
qed

lemma json_runtime_codec: "js_store m \<Longrightarrow> JSON_parse json_runtime (JSON_stringify json_runtime m) = Some m"
  by (simp add: json_runtime_def parse_json_render_store)

text \<open>
  Two closed texts fix the reading and the printing on the cases the round trip does not
  reach: white space between the tokens, the escapes \<^verbatim>\<open>\/\<close> and \<^verbatim>\<open>J\<close>
  that \<^verbatim>\<open>JSON.stringify\<close> never prints, a repeated key (the last value, at the place of the
  first), an integer key after a larger one (moved in front), and the control characters
  without a short escape.
\<close>

lemma parse_json_escapes_and_repeated_keys:
  "parse_json
     (''{ '' @ [CHR 0x22] @ ''a'' @ [CHR 0x5C] @ ''/b'' @ [CHR 0x5C] @ ''u004A'' @ [CHR 0x22]
        @ '' : { } , '' @ json_string ''a/bJ'' @ '':{'' @ json_string ''1'' @ '':''
        @ json_string ''x'' @ '','' @ json_string ''0'' @ '':'' @ json_string ''y'' @ '',''
        @ json_string ''1'' @ '':'' @ json_string ''z'' @ ''}}'' @ [CHR 0x0A])
   = Some [(''a/bJ'', [(''0'', ''y''), (''1'', ''z'')])]"
  by (simp add: json_eval_defs json_string_def json_char_def hex4_def hex_val_def own_set_def
      array_index_def digit_val_def char_of_def bit_Suc_0_iff)

lemma json_string_control:
  "json_string [CHR 0x01, CHR 0x0A, CHR 0x1F, CHR ''a''] =
     [CHR 0x22, CHR 0x5C, CHR ''u'', CHR ''0'', CHR ''0'', CHR ''0'', CHR ''1'',
      CHR 0x5C, CHR ''n'', CHR 0x5C, CHR ''u'', CHR ''0'', CHR ''0'', CHR ''1'', CHR ''f'',
      CHR ''a'', CHR 0x22]"
  by (simp add: json_string_def json_char_def hex_digit_def)

section \<open>Properties\<close>

subsection \<open>Loading a store that does not exist\<close>

text \<open>
  Claim C3. The load operation returns the persisted mapping, fails only when the medium
  cannot be read, and yields an empty snapshot when the store has not been created yet.
  The code does not do the last: in a vault where the file does not exist, with a medium
  that refuses nothing, \<open>loadMetadata\<close> rejects with the host's not-found error, so
  \<open>updateLineTimestamp\<close>, which loads first, rejects as well and never reaches the
  \<open>saveMetadata\<close> that would create the file: the store stays absent.
\<close>

theorem loadMetadata_fresh_vault_rejects:
  "fst (loadMetadata rt fresh_vault) = Inl NotFound
   \<and> fst (updateLineTimestamp rt ws filePath lineNumber timestamp fresh_vault) = Inl NotFound
   \<and> files (snd (updateLineTimestamp rt ws filePath lineNumber timestamp fresh_vault))
        METADATA_FILE = None
   \<and> files (snd (saveMetadata rt [] fresh_vault)) METADATA_FILE = Some (JSON_stringify rt [])"
  by (simp add: loadMetadata_def updateLineTimestamp_def saveMetadata_def adapter_read_def
      vault_createFolder_def vault_create_def fresh_vault_def)

subsection \<open>Persistence round trip\<close>

text \<open>
  Claim C4. Loading a valid persisted snapshot and saving the loaded value writes back
  byte-for-byte identical content, and every snapshot that is saved and loaded again is
  the same snapshot. The first part does not hold of every valid store: the save always
  writes the text of \<^verbatim>\<open>JSON.stringify(_, null, 2)\<close>, so a store in another form, such as
  one without whitespace, is rewritten (\<open>compact_store_rewritten\<close> below). As amended,
  with the runtime \<open>json_runtime\<close>: for a store text \<open>c\<close> that parses to \<open>m\<close>, on a medium
  that allows reading and writing the file, the load returns \<open>m\<close> and the save that
  follows succeeds and writes the printed text of \<open>m\<close>, changing no other file; the files
  are byte-identical exactly when \<open>c\<close> is that text, as every store that \<open>saveMetadata\<close>
  wrote is; the rewritten store loads as \<open>m\<close> again, and a further load and save leaves
  it as it is. And a store \<open>m0\<close> saved on such a medium loads as \<open>m0\<close>.
\<close>

theorem metadata_round_trip:
  assumes persisted: "files v METADATA_FILE = Some c"
    and valid: "JSON_parse json_runtime c = Some m"
    and v_ok: "Read METADATA_FILE \<notin> faulty v" "Write METADATA_FILE \<notin> faulty v"
    and snapshot: "js_store m0"
    and u_ok: "Read METADATA_FILE \<notin> faulty u" "Write METADATA_FILE \<notin> faulty u"
  shows "fst (loadMetadata json_runtime v) = Inr m
       \<and> (let v' = snd (saveMetadata json_runtime m (snd (loadMetadata json_runtime v))) in
            fst (saveMetadata json_runtime m (snd (loadMetadata json_runtime v))) = Inr ()
          \<and> files v' = (files v)(METADATA_FILE \<mapsto> render m)
          \<and> (files v' = files v) = (c = render m)
          \<and> fst (loadMetadata json_runtime v') = Inr m
          \<and> files (snd (saveMetadata json_runtime m (snd (loadMetadata json_runtime v')))) = files v')
       \<and> fst (saveMetadata json_runtime m0 u) = Inr ()
       \<and> fst (loadMetadata json_runtime (snd (saveMetadata json_runtime m0 u))) = Inr m0"
proof -
  let ?rt = json_runtime
  let ?l = "snd (loadMetadata ?rt v)"
  let ?v' = "snd (saveMetadata ?rt m ?l)"
  have store: "js_store m"
    using valid by (simp add: json_runtime_def parse_json_js_store)
  have print: "JSON_stringify ?rt m = render m"
    by (simp add: json_runtime_def)
  have load: "fst (loadMetadata ?rt v) = Inr m"
    using persisted valid v_ok(1) by (simp add: loadMetadata_Inr_iff)
  have l_ok: "Read METADATA_FILE \<notin> faulty ?l" "Write METADATA_FILE \<notin> faulty ?l"
    using v_ok by (simp_all add: loadMetadata_frame)
  note first = round_trip_given_codec [OF json_runtime_codec [OF store] l_ok]
  have files': "files ?v' = (files v)(METADATA_FILE \<mapsto> render m)"
    using first(2) by (simp add: print loadMetadata_frame)
  have same: "(files ?v' = files v) = (c = render m)"
  proof
    assume "files ?v' = files v"
    then have "files ?v' METADATA_FILE = files v METADATA_FILE" by simp
    then show "c = render m" by (simp add: files' persisted)
  next
    assume "c = render m"
    then show "files ?v' = files v"
      using persisted by (simp add: files' fun_upd_idem)
  qed
  have v'_ok: "Read METADATA_FILE \<notin> faulty ?v'" "Write METADATA_FILE \<notin> faulty ?v'"
    using l_ok by (simp_all add: saveMetadata_faulty)
  have l'_ok: "Read METADATA_FILE \<notin> faulty (snd (loadMetadata ?rt ?v'))"
      "Write METADATA_FILE \<notin> faulty (snd (loadMetadata ?rt ?v'))"
    using v'_ok by (simp_all add: loadMetadata_frame)
  have "files (snd (saveMetadata ?rt m (snd (loadMetadata ?rt ?v'))))
      = (files ?v')(METADATA_FILE \<mapsto> render m)"
    using round_trip_given_codec(2) [OF json_runtime_codec [OF store] l'_ok]
    by (simp add: print loadMetadata_frame)
  then have stable: "files (snd (saveMetadata ?rt m (snd (loadMetadata ?rt ?v')))) = files ?v'"
    by (simp add: files')
  note second = round_trip_given_codec [OF json_runtime_codec [OF snapshot] u_ok]
  show ?thesis
    using load first(1) first(3) files' same stable second(1) second(3)
    by (simp add: Let_def)
qed

theorem metadata_round_trip_witness:
  "fst (loadMetadata json_runtime (vault_holding compact_text)) = Inr [(''a.md'', [(''0'', ''t1'')])]
   \<and> files (snd (saveMetadata json_runtime [(''a.md'', [(''0'', ''t1'')])]
        (snd (loadMetadata json_runtime (vault_holding compact_text))))) METADATA_FILE
      = Some (render [(''a.md'', [(''0'', ''t1'')])])
   \<and> fst (loadMetadata json_runtime
        (snd (saveMetadata json_runtime [(''a.md'', [(''0'', ''t1''), (''12'', ''t2'')]), (''b/c.md'', [])]
           fresh_vault)))
      = Inr [(''a.md'', [(''0'', ''t1''), (''12'', ''t2'')]), (''b/c.md'', [])]"
proof -
  have valid: "JSON_parse json_runtime compact_text = Some [(''a.md'', [(''0'', ''t1'')])]"
    by (simp add: json_eval_defs json_string_def json_char_def own_set_def array_index_def
        digit_val_def)
  have snapshot: "js_store [(''a.md'', [(''0'', ''t1''), (''12'', ''t2'')]), (''b/c.md'', [])]"
    by (simp add: json_eval_defs array_index_def digit_val_def)
  show ?thesis
    using metadata_round_trip [of "vault_holding compact_text" compact_text
        "[(''a.md'', [(''0'', ''t1'')])]"
        "[(''a.md'', [(''0'', ''t1''), (''12'', ''t2'')]), (''b/c.md'', [])]" fresh_vault]
      valid snapshot
    by (simp add: vault_holding_def fresh_vault_def Let_def)
qed

theorem compact_store_rewritten:
  "JSON_parse json_runtime compact_text = Some [(''a.md'', [(''0'', ''t1'')])]
   \<and> fst (loadMetadata json_runtime (vault_holding compact_text))
       = Inr [(''a.md'', [(''0'', ''t1'')])]
   \<and> files (snd (saveMetadata json_runtime [(''a.md'', [(''0'', ''t1'')])]
        (snd (loadMetadata json_runtime (vault_holding compact_text))))) METADATA_FILE
      \<noteq> files (vault_holding compact_text) METADATA_FILE"
  by (simp add: json_eval_defs loadMetadata_def saveMetadata_def adapter_read_def
      vault_createFolder_def vault_create_def adapter_write_def render_def json_object_def
      json_string_def json_char_def own_set_def array_index_def digit_val_def
      METADATA_FILE_def METADATA_DIR_def)

subsection \<open>The frame of \<^verbatim>\<open>updateLineTimestamp\<close>\<close>

text \<open>
  Claim C9. For every path \<open>p\<close>, line number \<open>n\<close>, timestamp \<open>t\<close> and prior store state,
  \<open>updateLineTimestamp\<close> sets exactly the entry at (\<open>p\<close>, the string key of \<open>n\<close>) to \<open>t\<close>
  and leaves every other entry of \<open>p\<close> and of every other document unchanged in the
  persisted store; a document without an entry map gets an empty one first. This does
  not hold of every prior state: where the store does not load, or the medium refuses the
  write, the exception leaves the function and no entry is set
  (\<open>updateLineTimestamp_store_not_loaded\<close> below). As amended: for every prior store that
  loads, as the snapshot \<open>m\<close>, on a medium that allows writing the file, the file then
  holds the text of \<open>stamp m p n t\<close> and no other file changes; in that snapshot the entry
  of (\<open>p\<close>, key of \<open>n\<close>) is \<open>t\<close>, every other entry is the one of \<open>m\<close>, the other
  documents keep their entry maps, and a \<open>p\<close> that was absent has the single entry;
  where the runtime parses that text back, a load returns that snapshot. The key of
  \<open>n\<close> is its decimal numeral, so the entry of every other line \<open>n'\<close> of \<open>p\<close> is the one
  of \<open>m\<close>. This holds whether or not the redraw that follows the save throws.
\<close>

theorem updateLineTimestamp_frame:
  assumes loaded: "fst (loadMetadata rt v) = Inr m"
    and writable: "Write METADATA_FILE \<notin> faulty v"
  shows "files (snd (updateLineTimestamp rt ws p n t v)) METADATA_FILE
           = Some (JSON_stringify rt (stamp m p n t))
       \<and> (\<forall>f. f \<noteq> METADATA_FILE \<longrightarrow> files (snd (updateLineTimestamp rt ws p n t v)) f = files v f)
       \<and> entry (stamp m p n t) p (toString n) = Some t
       \<and> (\<forall>q k. q \<noteq> p \<or> k \<noteq> toString n \<longrightarrow> entry (stamp m p n t) q k = entry m q k)
       \<and> (\<forall>q. q \<noteq> p \<longrightarrow> map_of (stamp m p n t) q = map_of m q)
       \<and> (map_of m p = None \<longrightarrow> map_of (stamp m p n t) p = Some [(toString n, t)])
       \<and> (JSON_parse rt (JSON_stringify rt (stamp m p n t)) = Some (stamp m p n t) \<longrightarrow>
            fst (loadMetadata rt (snd (updateLineTimestamp rt ws p n t v))) = Inr (stamp m p n t))
       \<and> digits_val 0 (toString n) = Some n
       \<and> (\<forall>n'. n' \<noteq> n \<longrightarrow>
            entry (stamp m p n t) p (toString n') = entry m p (toString n'))"
proof -
  let ?v' = "snd (updateLineTimestamp rt ws p n t v)"
  have w: "Write METADATA_FILE \<notin> faulty (snd (loadMetadata rt v))"
    using writable by (simp add: loadMetadata_frame)
  have files: "files ?v' = (files v)(METADATA_FILE \<mapsto> JSON_stringify rt (stamp m p n t))"
    using saveMetadata_writable [OF w]
    by (simp add: updateLineTimestamp_vault [OF loaded] loadMetadata_frame)
  have faulty: "faulty ?v' = faulty v"
    by (simp add: updateLineTimestamp_vault [OF loaded] saveMetadata_faulty loadMetadata_frame)
  have rd: "Read METADATA_FILE \<notin> faulty v"
    using loaded by (simp add: loadMetadata_Inr_iff)
  have other_lines: "toString n' \<noteq> toString n" if "n' \<noteq> n" for n'
    using that toString_inj by blast
  show ?thesis
    using rd other_lines
    by (simp add: files faulty entry_stamp map_of_stamp own_set_Nil loadMetadata_Inr_iff
        digits_val_toString)
qed

theorem updateLineTimestamp_frame_witness:
  "entry (stamp [(''a.md'', [(''0'', ''t1'')]), (''b.md'', [(''4'', ''t0'')])] ''a.md'' 2 ''t2'') ''a.md'' ''2'' = Some ''t2''
   \<and> entry (stamp [(''a.md'', [(''0'', ''t1'')]), (''b.md'', [(''4'', ''t0'')])] ''a.md'' 2 ''t2'') ''a.md'' (toString 0) = Some ''t1''
   \<and> files (snd (updateLineTimestamp (sample_js [[(''a.md'', [(''0'', ''t1'')]), (''b.md'', [(''4'', ''t0'')])]])
        (editing ''a.md'' ''a.md'' [''x'', ''y'', ''z'']) ''a.md'' 2 ''t2''
        (vault_with [(''a.md'', [(''0'', ''t1'')]), (''b.md'', [(''4'', ''t0'')])]))) METADATA_FILE
      = Some (render [(''a.md'', [(''0'', ''t1''), (''2'', ''t2'')]), (''b.md'', [(''4'', ''t0'')])])"
  using updateLineTimestamp_frame [of "sample_js [[(''a.md'', [(''0'', ''t1'')]), (''b.md'', [(''4'', ''t0'')])]]"
      "vault_with [(''a.md'', [(''0'', ''t1'')]), (''b.md'', [(''4'', ''t0'')])]"
      "[(''a.md'', [(''0'', ''t1'')]), (''b.md'', [(''4'', ''t0'')])]"
      "editing ''a.md'' ''a.md'' [''x'', ''y'', ''z'']" "''a.md''" 2 "''t2''"]
  by (simp add: loadMetadata_Inr_iff sample_js_def vault_with_def toString.simps
      stamp_def own_set_def array_index_def digit_val_def entry_def)

theorem updateLineTimestamp_store_not_loaded:
  "fst (updateLineTimestamp (sample_js []) (editing ''a.md'' ''a.md'' [''x'', ''y'', ''z''])
         ''a.md'' 2 ''t2'' fresh_vault) = Inl NotFound
   \<and> files (snd (updateLineTimestamp (sample_js []) (editing ''a.md'' ''a.md'' [''x'', ''y'', ''z''])
         ''a.md'' 2 ''t2'' fresh_vault)) METADATA_FILE = None
   \<and> fst (updateLineTimestamp (sample_js [[(''a.md'', [(''0'', ''t1'')])]])
         (editing ''a.md'' ''a.md'' [''x'', ''y'', ''z'']) ''a.md'' 2 ''t2''
         ((vault_with [(''a.md'', [(''0'', ''t1'')])])\<lparr>faulty := {Write METADATA_FILE}\<rparr>))
       = Inl IOError
   \<and> files (snd (updateLineTimestamp (sample_js [[(''a.md'', [(''0'', ''t1'')])]])
         (editing ''a.md'' ''a.md'' [''x'', ''y'', ''z'']) ''a.md'' 2 ''t2''
         ((vault_with [(''a.md'', [(''0'', ''t1'')])])\<lparr>faulty := {Write METADATA_FILE}\<rparr>)))
       METADATA_FILE
      = Some (render [(''a.md'', [(''0'', ''t1'')])])
   \<and> entry [(''a.md'', [(''0'', ''t1'')])] ''a.md'' (toString 2) = None"
  by (simp add: eval_defs fresh_vault_def entry_def)

subsection \<open>A failed save\<close>

text \<open>
  Claim C7. If persisting a recorded change fails, the change is not silently dropped and
  the in-memory state that gates further updates is not advanced, so the next change
  event retries the same update against the same baseline; the store mutation is atomic
  with respect to that advance. In \<^verbatim>\<open>src/main.ts\<close> that state is \<open>updatedTimestamp\<close> (the
  source keeps no cache of the last content). The handler keeps no record of a failed
  update: the next event stamps its own cursor line at its own time, and the line of the
  failed update stays without its timestamp; and a store that was written does not imply
  a flag that is set (\<open>failed_update_not_retried\<close> below). As amended: for a change event
  with an active file and a clear flag, on a store that loads as \<open>m\<close>, when the save of
  the updated snapshot is rejected with \<open>e\<close>, the handler rejects with \<open>e\<close>, the flag and
  the timer are as before, and every file of the vault is as before; a later change
  event, once the medium accepts operations again, is not gated and writes its own update
  of the same \<open>m\<close>, in which the line of the failed update has the entry it had in \<open>m\<close>.
  And the flag is set only when the save succeeded and the file holds the updated
  snapshot.
\<close>

theorem handleEditorChange_persist_failure:
  assumes active: "activeFile ws = Some file"
    and clear: "\<not> updatedTimestamp p"
    and loaded: "fst (loadMetadata rt (app p)) = Inr m"
  shows "(fst (saveMetadata rt (stamp m (path file) line now) (snd (loadMetadata rt (app p)))) = Inl e \<longrightarrow>
            fst (handleEditorChange rt ws line now p) = Inl e
          \<and> updatedTimestamp (snd (handleEditorChange rt ws line now p)) = updatedTimestamp p
          \<and> updateTimer (snd (handleEditorChange rt ws line now p)) = updateTimer p
          \<and> files (app (snd (handleEditorChange rt ws line now p))) = files (app p)
          \<and> (\<forall>line' now'.
                files (app (snd (handleEditorChange rt ws line' now'
                  ((snd (handleEditorChange rt ws line now p))
                     \<lparr>app := (app (snd (handleEditorChange rt ws line now p)))\<lparr>faulty := {}\<rparr>\<rparr>))))
                  METADATA_FILE
                = Some (JSON_stringify rt (stamp m (path file) line' now')))
          \<and> (\<forall>line' now'. line' \<noteq> line \<longrightarrow>
                entry (stamp m (path file) line' now') (path file) (toString line)
                = entry m (path file) (toString line)))
       \<and> (updatedTimestamp (snd (handleEditorChange rt ws line now p)) \<longrightarrow>
            fst (saveMetadata rt (stamp m (path file) line now) (snd (loadMetadata rt (app p)))) = Inr ()
          \<and> files (app (snd (handleEditorChange rt ws line now p))) METADATA_FILE
              = Some (JSON_stringify rt (stamp m (path file) line now)))"
proof (intro conjI impI allI)
  let ?save = "saveMetadata rt (stamp m (path file) line now) (snd (loadMetadata rt (app p)))"
  let ?p' = "snd (handleEditorChange rt ws line now p)"
  note handler = handleEditorChange_open [OF active clear]
  note result = updateLineTimestamp_result [OF loaded]
  note vault = updateLineTimestamp_vault [OF loaded]
  {
    assume failed: "fst ?save = Inl e"
    show "fst (handleEditorChange rt ws line now p) = Inl e"
      by (simp add: handler result failed)
    show "updatedTimestamp ?p' = updatedTimestamp p"
      using clear by (simp add: handler result failed)
    show "updateTimer ?p' = updateTimer p"
      by (simp add: handler result failed)
    show same: "files (app ?p') = files (app p)"
      using saveMetadata_rejected [OF failed] by (simp add: handler vault loadMetadata_frame)
    fix line' now'
    let ?u = "(app ?p')\<lparr>faulty := {}\<rparr>"
    let ?q = "?p'\<lparr>app := ?u\<rparr>"
    have q_clear: "\<not> updatedTimestamp ?q"
      using clear by (simp add: handler result failed)
    have u_loaded: "fst (loadMetadata rt ?u) = Inr m"
      using loaded by (simp add: loadMetadata_Inr_iff same)
    have u_writable: "Write METADATA_FILE \<notin> faulty (snd (loadMetadata rt ?u))"
      by (simp add: loadMetadata_frame)
    have "app (snd (handleEditorChange rt ws line' now' ?q))
            = snd (saveMetadata rt (stamp m (path file) line' now') (snd (loadMetadata rt ?u)))"
      using handleEditorChange_open(2) [OF active q_clear, of rt line' now']
      by (simp add: updateLineTimestamp_vault [OF u_loaded])
    then show "files (app (snd (handleEditorChange rt ws line' now' ?q))) METADATA_FILE
            = Some (JSON_stringify rt (stamp m (path file) line' now'))"
      using saveMetadata_writable [OF u_writable] by simp
  next
    fix line' :: nat and now' :: string
    assume "line' \<noteq> line"
    then have "toString line \<noteq> toString line'"
      using toString_inj by blast
    then show "entry (stamp m (path file) line' now') (path file) (toString line)
        = entry m (path file) (toString line)"
      by (simp add: entry_stamp)
  }
  {
    assume advanced: "updatedTimestamp ?p'"
    then have ok: "fst (updateLineTimestamp rt ws (path file) line now (app p)) = Inr ()"
      by (simp add: handler)
    then show saved: "fst ?save = Inr ()"
      by (auto simp: result split: sum.splits)
    then show "files (app ?p') METADATA_FILE = Some (JSON_stringify rt (stamp m (path file) line now))"
      by (simp add: handler vault saveMetadata_files)
  }
qed

theorem handleEditorChange_persist_failure_witness:
  "fst (handleEditorChange (sample_js [[(''a.md'', [(''0'', ''t1'')])]])
          (editing ''a.md'' ''a.md'' [''x'']) 0 ''t2''
          (loaded_plugin ((vault_with [(''a.md'', [(''0'', ''t1'')])])\<lparr>faulty := {Write METADATA_FILE}\<rparr>)))
     = Inl IOError
   \<and> updatedTimestamp (snd (handleEditorChange (sample_js [[(''a.md'', [(''0'', ''t1'')])]])
          (editing ''a.md'' ''a.md'' [''x'']) 0 ''t2''
          (loaded_plugin ((vault_with [(''a.md'', [(''0'', ''t1'')])])\<lparr>faulty := {Write METADATA_FILE}\<rparr>))))
     = False
   \<and> files (app (snd (handleEditorChange (sample_js [[(''a.md'', [(''0'', ''t1'')])]])
          (editing ''a.md'' ''a.md'' [''x'']) 0 ''t2''
          (loaded_plugin ((vault_with [(''a.md'', [(''0'', ''t1'')])])\<lparr>faulty := {Write METADATA_FILE}\<rparr>)))))
     = files (vault_with [(''a.md'', [(''0'', ''t1'')])])
   \<and> updatedTimestamp (snd (handleEditorChange (sample_js [[(''a.md'', [(''0'', ''t1'')])]])
          (editing ''a.md'' ''a.md'' [''x'']) 0 ''t2''
          (loaded_plugin (vault_with [(''a.md'', [(''0'', ''t1'')])]))))
   \<and> files (app (snd (handleEditorChange (sample_js [[(''a.md'', [(''0'', ''t1'')])]])
          (editing ''a.md'' ''a.md'' [''x'']) 0 ''t2''
          (loaded_plugin (vault_with [(''a.md'', [(''0'', ''t1'')])]))))) METADATA_FILE
     = Some (render [(''a.md'', [(''0'', ''t2'')])])"
proof -
  let ?rt = "sample_js [[(''a.md'', [(''0'', ''t1'')])]]"
  let ?ws = "editing ''a.md'' ''a.md'' [''x'']"
  let ?ok = "vault_with [(''a.md'', [(''0'', ''t1'')])]"
  let ?bad = "?ok\<lparr>faulty := {Write METADATA_FILE}\<rparr>"
  have active: "activeFile ?ws = Some \<lparr>path = ''a.md'', name = ''a.md''\<rparr>"
    by (simp add: editing_def)
  have loaded_bad: "fst (loadMetadata ?rt (app (loaded_plugin ?bad))) = Inr [(''a.md'', [(''0'', ''t1'')])]"
    by (simp add: loadMetadata_Inr_iff sample_js_def vault_with_def loaded_plugin_def)
  have loaded_ok: "fst (loadMetadata ?rt (app (loaded_plugin ?ok))) = Inr [(''a.md'', [(''0'', ''t1'')])]"
    by (simp add: loadMetadata_Inr_iff sample_js_def vault_with_def loaded_plugin_def)
  have refused: "fst (saveMetadata ?rt (stamp [(''a.md'', [(''0'', ''t1'')])] ''a.md'' 0 ''t2'')
      (snd (loadMetadata ?rt (app (loaded_plugin ?bad))))) = Inl IOError"
    by (simp add: eval_defs)
  have advanced: "updatedTimestamp (snd (handleEditorChange ?rt ?ws 0 ''t2'' (loaded_plugin ?ok)))"
    by (simp add: eval_defs)
  have stamped: "stamp [(''a.md'', [(''0'', ''t1'')])] ''a.md'' 0 ''t2'' = [(''a.md'', [(''0'', ''t2'')])]"
    by (simp add: stamp_def own_set_def toString.simps)
  show ?thesis
    using handleEditorChange_persist_failure [OF active _ loaded_bad, of 0 "''t2''" IOError]
      handleEditorChange_persist_failure [OF active _ loaded_ok, of 0 "''t2''" IOError]
      refused advanced
    by (simp add: stamped loaded_plugin_def vault_with_def sample_js_def)
qed

theorem failed_update_not_retried:
  "fst (handleEditorChange (sample_js [[(''a.md'', [(''0'', ''t0'')])]])
         (editing ''a.md'' ''a.md'' [''a'', ''b'', ''c'', ''d'', ''e'', ''f'', ''g'']) 5 ''t1''
         (loaded_plugin ((vault_with [(''a.md'', [(''0'', ''t0'')])])\<lparr>faulty := {Write METADATA_FILE}\<rparr>)))
     = Inl IOError
   \<and> files (app (snd (handleEditorChange (sample_js [[(''a.md'', [(''0'', ''t0'')])]])
         (editing ''a.md'' ''a.md'' [''a'', ''b'', ''c'', ''d'', ''e'', ''f'', ''g'']) 6 ''t2''
         ((snd (handleEditorChange (sample_js [[(''a.md'', [(''0'', ''t0'')])]])
            (editing ''a.md'' ''a.md'' [''a'', ''b'', ''c'', ''d'', ''e'', ''f'', ''g'']) 5 ''t1''
            (loaded_plugin ((vault_with [(''a.md'', [(''0'', ''t0'')])])\<lparr>faulty := {Write METADATA_FILE}\<rparr>))))
          \<lparr>app := (app (snd (handleEditorChange (sample_js [[(''a.md'', [(''0'', ''t0'')])]])
            (editing ''a.md'' ''a.md'' [''a'', ''b'', ''c'', ''d'', ''e'', ''f'', ''g'']) 5 ''t1''
            (loaded_plugin ((vault_with [(''a.md'', [(''0'', ''t0'')])])\<lparr>faulty := {Write METADATA_FILE}\<rparr>)))))
               \<lparr>faulty := {}\<rparr>\<rparr>)))) METADATA_FILE
     = Some (render [(''a.md'', [(''0'', ''t0''), (''6'', ''t2'')])])
   \<and> entry [(''a.md'', [(''0'', ''t0''), (''6'', ''t2'')])] ''a.md'' (toString 5) = None
   \<and> fst (handleEditorChange (sample_js [[]]) (editing ''notes/a.md'' ''a.md'' [''x'']) 0 ''t1''
         (loaded_plugin (vault_with []))) = Inl TypeError
   \<and> updatedTimestamp (snd (handleEditorChange (sample_js [[]])
         (editing ''notes/a.md'' ''a.md'' [''x'']) 0 ''t1'' (loaded_plugin (vault_with [])))) = False
   \<and> files (app (snd (handleEditorChange (sample_js [[]])
         (editing ''notes/a.md'' ''a.md'' [''x'']) 0 ''t1'' (loaded_plugin (vault_with [])))))
       METADATA_FILE
     = Some (render [(''notes/a.md'', [(''0'', ''t1'')])])"
  by (simp add: eval_defs entry_def)

subsection \<open>The two copies\<close>

text \<open>
  Claim C8. The store operations that both copies have, \<open>loadMetadata\<close>,
  \<open>saveMetadata\<close> and \<open>updateLineTimestamp\<close>, are extensionally equal: for every input and
  every vault they return the same result and leave the same vault.
\<close>

theorem copies_equivalent:
  "loadMetadata2 = loadMetadata \<and> saveMetadata2 = saveMetadata
   \<and> updateLineTimestamp2 = updateLineTimestamp"
proof -
  have l: "loadMetadata2 = loadMetadata"
    by (simp add: fun_eq_iff loadMetadata2_def loadMetadata_def)
  have s: "saveMetadata2 = saveMetadata"
    by (simp add: fun_eq_iff saveMetadata2_def saveMetadata_def)
  have ov: "overlayTimestamps2 = overlayTimestamps"
    by (simp add: fun_eq_iff overlayTimestamps2_def overlayTimestamps_def overlay_loop2_eq
        split: option.splits)
  have st: "stamp2 = stamp"
    by (simp add: fun_eq_iff stamp2_def stamp_def)
  have "updateLineTimestamp2 = updateLineTimestamp"
    unfolding fun_eq_iff updateLineTimestamp2_def updateLineTimestamp_def l s ov st by simp
  with l s show ?thesis by simp
qed


subsection \<open>Reading the timestamps of a file without history\<close>

text \<open>
  Claim C5. For a document with no recorded history the read accessor returns an empty
  mapping and does not raise. The accessor of the source is \<open>overlayTimestamps\<close>, and it
  does raise: when the active file has a name, the timestamps have no property of that
  name and the view renders at least one line, \<^verbatim>\<open>timestamps[fileName][i]\<close> throws in the
  first round of the loop, in both copies. (\<open>updateLineTimestamp\<close> guards the same lookup
  with \<^verbatim>\<open>if (!metadata[filePath])\<close>.)
\<close>

theorem overlayTimestamps_absent_document_throws:
  assumes "activeFile ws = Some file" and "name file \<noteq> []"
    and "map_of timestamps (name file) = None"
  shows "overlayTimestamps ws (Some (lineText # rest)) timestamps = Inl TypeError
       \<and> overlayTimestamps2 ws (Some (lineText # rest)) timestamps = Inl TypeError"
  using assms by (simp add: overlayTimestamps_def overlayTimestamps2_def)

theorem overlayTimestamps_absent_document_throws_witness:
  "overlayTimestamps (editing ''note.md'' ''note.md'' [''hello'']) (Some [''hello''])
      [(''other.md'', [(''0'', ''t1'')])] = Inl TypeError
   \<and> overlayTimestamps2 (editing ''note.md'' ''note.md'' [''hello'']) (Some [''hello''])
      [(''other.md'', [(''0'', ''t1'')])] = Inl TypeError"
  using overlayTimestamps_absent_document_throws
    [of "editing ''note.md'' ''note.md'' [''hello'']" "\<lparr>path = ''note.md'', name = ''note.md''\<rparr>"
        "[(''other.md'', [(''0'', ''t1'')])]" "''hello''" "[]"]
  by (simp add: editing_def)

subsection \<open>A change event only stamps the cursor's line\<close>

text \<open>
  Claim C1. After a line is inserted at position \<open>k\<close>, the timestamps of the lines before
  \<open>k\<close> are unchanged, those of the lines from \<open>k\<close> on move up by one, and only the new
  line gets a fresh timestamp. The handlers of both copies do not move any entry. The
  document \<^verbatim>\<open>a.md\<close> has the lines a, b, c stamped \<open>ta\<close>, \<open>tb\<close>, \<open>tc\<close>; a line x is
  inserted at position 1 and the change event arrives with the cursor on line 1 at time
  \<open>t2\<close>. The store then maps 0 to \<open>ta\<close>, 1 to \<open>t2\<close> and 2 to \<open>tc\<close>: line 2 (now b)
  carries the timestamp of c, line 3 (now c) has none, and \<open>tb\<close> is lost.
\<close>

theorem handleEditorChange_insert_not_shifted:
  "files (app (snd (handleEditorChange
       (sample_js [[(''a.md'', [(''0'', ''ta''), (''1'', ''tb''), (''2'', ''tc'')])]])
       (editing ''a.md'' ''a.md'' [''a'', ''x'', ''b'', ''c'']) 1 ''t2''
       (loaded_plugin (vault_with [(''a.md'', [(''0'', ''ta''), (''1'', ''tb''), (''2'', ''tc'')])])))))
     METADATA_FILE
   = Some (render [(''a.md'', [(''0'', ''ta''), (''1'', ''t2''), (''2'', ''tc'')])])
   \<and> files (snd (handleEditorChange2
       (sample_js [[(''a.md'', [(''0'', ''ta''), (''1'', ''tb''), (''2'', ''tc'')])]])
       (editing ''a.md'' ''a.md'' [''a'', ''x'', ''b'', ''c'']) 1 ''t2''
       (vault_with [(''a.md'', [(''0'', ''ta''), (''1'', ''tb''), (''2'', ''tc'')])])))
     METADATA_FILE
   = Some (render [(''a.md'', [(''0'', ''ta''), (''1'', ''t2''), (''2'', ''tc'')])])"
  by (simp add: eval_defs)

text \<open>
  Claim C2. A change event whose new content equals the old content leaves the entry map
  byte-identical. The handlers of both copies never look at the content: with the store
  mapping line 0 of \<^verbatim>\<open>a.md\<close> to \<open>t1\<close>, a change event at time \<open>t2\<close> with the cursor on line
  0 and the content unchanged rewrites the entry to \<open>t2\<close>.
\<close>

theorem handleEditorChange_same_content_restamps:
  "files (app (snd (handleEditorChange
       (sample_js [[(''a.md'', [(''0'', ''t1'')])]])
       (editing ''a.md'' ''a.md'' [''a'']) 0 ''t2''
       (loaded_plugin (vault_with [(''a.md'', [(''0'', ''t1'')])])))))
     METADATA_FILE
   = Some (render [(''a.md'', [(''0'', ''t2'')])])
   \<and> files (snd (handleEditorChange2
       (sample_js [[(''a.md'', [(''0'', ''t1'')])]])
       (editing ''a.md'' ''a.md'' [''a'']) 0 ''t2''
       (vault_with [(''a.md'', [(''0'', ''t1'')])])))
     METADATA_FILE
   = Some (render [(''a.md'', [(''0'', ''t2'')])])"
  by (simp add: eval_defs)

subsection \<open>Two writes before the timer expires\<close>

text \<open>
  Claim C10. In \<^verbatim>\<open>src/main.ts\<close> the handler neither reads nor changes the store when there is
  no active file or the flag is set, and so at most one timestamp is written per
  two-second window. The flag is set only after \<open>updateLineTimestamp\<close> returns, and it throws
  after the save when the redraw finds no property for the active file's name: the
  store is keyed by the file's path, the redraw reads by its name. For the file
  \<^verbatim>\<open>notes/a.md\<close> (name \<^verbatim>\<open>a.md\<close>), two change events with no timer expiry between them both
  write: the flag is still clear after them, the log has two writes of the file, and the
  store holds both timestamps.
\<close>

theorem two_writes_before_timer:
  "updatedTimestamp (run (sample_js [[], [(''notes/a.md'', [(''0'', ''t1'')])]])
       (loaded_plugin (vault_with []))
       [EditorChange (editing ''notes/a.md'' ''a.md'' [''x'', ''y'']) 0 ''t1'',
        EditorChange (editing ''notes/a.md'' ''a.md'' [''x'', ''y'']) 1 ''t2'']) = False
   \<and> filter (\<lambda>io. io = Write METADATA_FILE)
       (trace (app (run (sample_js [[], [(''notes/a.md'', [(''0'', ''t1'')])]])
       (loaded_plugin (vault_with []))
       [EditorChange (editing ''notes/a.md'' ''a.md'' [''x'', ''y'']) 0 ''t1'',
        EditorChange (editing ''notes/a.md'' ''a.md'' [''x'', ''y'']) 1 ''t2''])))
     = [Write METADATA_FILE, Write METADATA_FILE]
   \<and> files (app (run (sample_js [[], [(''notes/a.md'', [(''0'', ''t1'')])]])
       (loaded_plugin (vault_with []))
       [EditorChange (editing ''notes/a.md'' ''a.md'' [''x'', ''y'']) 0 ''t1'',
        EditorChange (editing ''notes/a.md'' ''a.md'' [''x'', ''y'']) 1 ''t2''])) METADATA_FILE
     = Some (render [(''notes/a.md'', [(''0'', ''t1''), (''1'', ''t2'')])])"
  by (simp add: eval_defs)

subsection \<open>Edge cases of the line diff\<close>

text \<open>
  Claim C6. \<^verbatim>\<open>computeEditScript\<close> of an empty old content is a single insert covering all
  new lines, of an empty new content a single delete covering all old lines, and of
  identical contents a single equal run. Stated for every input the three parts
  contradict one another at two empty sequences, where the script of the model is empty.
  As amended: each part holds when the content it speaks of is not empty.
\<close>

theorem computeEditScript_edge_cases:
  "(newLines \<noteq> [] \<longrightarrow> computeEditScript [] newLines = [Insert (0, length newLines)])
   \<and> (oldLines \<noteq> [] \<longrightarrow> computeEditScript oldLines [] = [Delete (0, length oldLines)])
   \<and> (lines \<noteq> [] \<longrightarrow>
        computeEditScript lines lines = [Equal (0, length lines) (0, length lines)])"
proof (intro conjI impI)
  assume "newLines \<noteq> []"
  then obtain n where len: "length newLines = Suc n" by (cases newLines) auto
  show "computeEditScript [] newLines = [Insert (0, length newLines)]"
    unfolding computeEditScript_def line_steps_from_empty len group_inserts by simp
next
  assume "oldLines \<noteq> []"
  then obtain n where len: "length oldLines = Suc n" by (cases oldLines) auto
  show "computeEditScript oldLines [] = [Delete (0, length oldLines)]"
    unfolding computeEditScript_def line_steps_to_empty len group_deletes by simp
next
  assume "lines \<noteq> []"
  then obtain n where len: "length lines = Suc n" by (cases lines) auto
  show "computeEditScript lines lines = [Equal (0, length lines) (0, length lines)]"
    unfolding computeEditScript_def line_steps_same len group_keeps by simp
qed

theorem computeEditScript_edge_cases_witness:
  "computeEditScript [] [''a'', ''b''] = [Insert (0, 2)]
   \<and> computeEditScript [''a'', ''b''] [] = [Delete (0, 2)]
   \<and> computeEditScript [''a'', ''b''] [''a'', ''b''] = [Equal (0, 2) (0, 2)]"
  using computeEditScript_edge_cases [of "[''a'', ''b'']" "[''a'', ''b'']" "[''a'', ''b'']"]
  by simp

theorem computeEditScript_empty_inputs:
  "computeEditScript [] [] \<noteq> [Insert (0, length ([] :: string list))]
   \<and> computeEditScript [] [] \<noteq> [Delete (0, length ([] :: string list))]
   \<and> computeEditScript [] [] \<noteq>
        [Equal (0, length ([] :: string list)) (0, length ([] :: string list))]"
  by (simp add: computeEditScript_def)

subsection \<open>The flag and the debounce of \<^verbatim>\<open>src/main.ts\<close>\<close>

text \<open>
  With no active file, or with the flag set, \<open>handleEditorChange\<close> returns at once: the
  plugin and its vault, the log of host operations included, are as before, so the store
  is neither read nor written.
\<close>

theorem handleEditorChange_gate:
  assumes "activeFile ws = None \<or> updatedTimestamp p"
  shows "handleEditorChange rt ws line now p = (Inr (), p)"
  using assms by (rule handleEditorChange_gated)

theorem handleEditorChange_gate_witness:
  "handleEditorChange (sample_js []) \<lparr>activeFile = None, activeView = None\<rparr> 3 ''t1''
      (loaded_plugin fresh_vault) = (Inr (), loaded_plugin fresh_vault)
   \<and> handleEditorChange (sample_js []) (editing ''a.md'' ''a.md'' [''x'']) 3 ''t1''
      ((loaded_plugin fresh_vault)\<lparr>updatedTimestamp := True\<rparr>)
      = (Inr (), (loaded_plugin fresh_vault)\<lparr>updatedTimestamp := True\<rparr>)"
  using handleEditorChange_gate [of "\<lparr>activeFile = None, activeView = None\<rparr>"
      "loaded_plugin fresh_vault" "sample_js []" 3 "''t1''"]
    handleEditorChange_gate [of "editing ''a.md'' ''a.md'' [''x'']"
      "(loaded_plugin fresh_vault)\<lparr>updatedTimestamp := True\<rparr>" "sample_js []" 3 "''t1''"]
  by simp

text \<open>
  When a change event is handled without an exception, the flag is set and a timeout is
  pending; every further change event before the timeout fires leaves the plugin and its
  vault as they are, and the timeout clears the flag.
\<close>

theorem debounce_after_update:
  assumes active: "activeFile ws = Some file"
    and clear: "\<not> updatedTimestamp p"
    and handled: "fst (handleEditorChange rt ws line now p) = Inr ()"
    and changes: "list_all is_editor_change events"
  shows "run rt (snd (handleEditorChange rt ws line now p)) events
           = snd (handleEditorChange rt ws line now p)
       \<and> updateTimer (snd (handleEditorChange rt ws line now p))
       \<and> updatedTimestamp
             (run rt (snd (handleEditorChange rt ws line now p)) (events @ [TimerFired])) = False"
proof -
  let ?p' = "snd (handleEditorChange rt ws line now p)"
  have set: "updatedTimestamp ?p'" and armed: "updateTimer ?p'"
    using handled by (simp_all add: handleEditorChange_open [OF active clear])
  have idle: "run rt q events = q" if "updatedTimestamp q" for q
    using changes that
  proof (induction events)
    case Nil
    then show ?case by (simp add: run_def)
  next
    case (Cons ev evs)
    then obtain ws' line' now' where ev: "ev = EditorChange ws' line' now'"
      by (cases ev) auto
    have "step rt q ev = q"
      using Cons.prems(2) by (simp add: ev handleEditorChange_gated)
    with Cons show ?case by (simp add: run_def)
  qed
  have "run rt ?p' (events @ [TimerFired]) = step rt (run rt ?p' events) TimerFired"
    by (simp add: run_def)
  then show ?thesis
    using idle [OF set] armed by (simp add: timerExpired_def)
qed

theorem debounce_after_update_witness:
  "run (sample_js [[(''a.md'', [(''0'', ''t1'')])]])
      (snd (handleEditorChange (sample_js [[(''a.md'', [(''0'', ''t1'')])]])
         (editing ''a.md'' ''a.md'' [''x'', ''y'']) 0 ''t2''
         (loaded_plugin (vault_with [(''a.md'', [(''0'', ''t1'')])]))))
      [EditorChange (editing ''a.md'' ''a.md'' [''x'', ''y'']) 1 ''t3'']
    = snd (handleEditorChange (sample_js [[(''a.md'', [(''0'', ''t1'')])]])
         (editing ''a.md'' ''a.md'' [''x'', ''y'']) 0 ''t2''
         (loaded_plugin (vault_with [(''a.md'', [(''0'', ''t1'')])])))"
proof -
  have handled: "fst (handleEditorChange (sample_js [[(''a.md'', [(''0'', ''t1'')])]])
         (editing ''a.md'' ''a.md'' [''x'', ''y'']) 0 ''t2''
         (loaded_plugin (vault_with [(''a.md'', [(''0'', ''t1'')])]))) = Inr ()"
    by (simp add: eval_defs)
  show ?thesis
    using debounce_after_update [of "editing ''a.md'' ''a.md'' [''x'', ''y'']"
        "\<lparr>path = ''a.md'', name = ''a.md''\<rparr>"
        "loaded_plugin (vault_with [(''a.md'', [(''0'', ''t1'')])])"
        "sample_js [[(''a.md'', [(''0'', ''t1'')])]]" 0 "''t2''"
        "[EditorChange (editing ''a.md'' ''a.md'' [''x'', ''y'']) 1 ''t3'']"] handled
    by (simp add: editing_def loaded_plugin_def)
qed

end
